theory Spec2Isabelle
  imports Main "HOL-Library.Multiset"
begin

section \<open>The view selection of the editing engine\<close>

text \<open>
  This theory embeds the class \<open>Selection\<close> of \<^verbatim>\<open>engine/view/selection.js\<close>: its
  stored ranges, the direction of the range added last, the fake-selection metadata,
  the mutators \<open>_setTo\<close>, \<open>_setRanges\<close>, \<open>_setFocus\<close>, \<open>_setFakeOptions\<close>, \<open>_addRange\<close>
  and \<open>_pushRange\<close>, the getters built on them and the comparisons \<open>isEqual\<close> and
  \<open>isSimilar\<close>. A leading underscore is not part of an Isabelle name, so \<open>_setTo\<close> is
  \<open>setTo\<close> here, and so on.
\<close>

subsection \<open>Positions and ranges\<close>

text \<open>
  \<open>Position\<close> and \<open>Range\<close> are classes of the sibling modules \<^verbatim>\<open>./position\<close> and
  \<^verbatim>\<open>./range\<close>. The selection never writes to a field of a position or of a range, it
  only reads, compares and copies them. A position is therefore a value of a type
  \<open>'p\<close>, \<open>Position.isEqual\<close> is equality on \<open>'p\<close>, and a range is its pair of
  positions, so that \<open>Range.isEqual\<close> is equality of records. (The identity of position
  objects, which a value cannot show, has a subsection of its own below.)
\<close>

record 'p Range =
  start :: 'p
  end' :: 'p

text \<open>
  Modelled from the spec: \<open>Position.createFromPosition\<close>, the copy constructor of a
  position. The copy has the value of the original.
\<close>

definition createFromPosition :: "'p \<Rightarrow> 'p" where
  "createFromPosition position = position"

text \<open>
  Modelled from the spec: the constructor \<open>new Range( start, end )\<close>, which stores
  copies of the two positions, and \<open>new Range( start )\<close>, the collapsed range at
  \<open>start\<close>.
\<close>

definition Range_new :: "'p \<Rightarrow> 'p option \<Rightarrow> 'p Range" where
  "Range_new s e =
     \<lparr>start = createFromPosition s,
      end' = (case e of Some e' \<Rightarrow> createFromPosition e' | None \<Rightarrow> createFromPosition s)\<rparr>"

text \<open>Modelled from the spec: \<open>Range.createFromRange\<close>, the copy constructor of a range.\<close>

definition createFromRange :: "'p Range \<Rightarrow> 'p Range" where
  "createFromRange range' = Range_new (start range') (Some (end' range'))"

text \<open>
  Modelled from the spec: \<open>Range.isCollapsed\<close>; a range is collapsed iff its start
  equals its end.
\<close>

definition Range_isCollapsed :: "'p Range \<Rightarrow> bool" where
  "Range_isCollapsed range' = (start range' = end' range')"

text \<open>
  The first argument of \<open>Position.createAt\<close>, as \<open>_setFocus\<close> receives it: a position,
  or an item of the tree (of a type \<open>'n\<close>).
\<close>

datatype ('p, 'n) itemOrPosition = APosition 'p | AnItem 'n

subsection \<open>Options and the other arguments of \<open>_setTo\<close>\<close>

text \<open>
  An options object \<open>{ backward, fake, label }\<close>. A property that is absent reads as
  \<open>undefined\<close>, here \<open>None\<close>; \<open>backward\<close> and \<open>fake\<close> are documented as booleans and
  \<open>label\<close> as a string.
\<close>

record options =
  backward :: "bool option"
  fake :: "bool option"
  label :: "string option"

text \<open>The boolean coercion \<open>!!v\<close> of a property that is a boolean or \<open>undefined\<close>.\<close>

fun truthy :: "bool option \<Rightarrow> bool" where
  "truthy None = False"
| "truthy (Some b) = b"

text \<open>The expression \<open>options.label || ''\<close>: \<open>undefined\<close> and the empty string give \<open>''\<close>.\<close>

fun labelOrEmpty :: "string option \<Rightarrow> string" where
  "labelOrEmpty None = []"
| "labelOrEmpty (Some l) = (if l = [] then [] else l)"

text \<open>
  The second argument of \<open>_setTo\<close> is \<open>undefined\<close>, an options object, the place \<open>'in'\<close>
  or \<open>'on'\<close>, or another place or offset (of a type \<open>'o\<close>).
\<close>

datatype 'o optionsOrPlaceOrOffset =
  Undefined | Options options | PlaceIn | PlaceOn | PlaceOrOffset 'o

text \<open>
  \<open>optionsOrPlaceOrOffset && optionsOrPlaceOrOffset.backward\<close>, coerced by \<open>_setRanges\<close>:
  only an options object has the property.
\<close>

fun backwardOf :: "'o optionsOrPlaceOrOffset \<Rightarrow> bool" where
  "backwardOf (Options opts) = truthy (backward opts)"
| "backwardOf _ = False"

text \<open>
  The value as \<open>_setFakeOptions\<close> reads it. \<open>None\<close> stands for every value whose
  properties \<open>fake\<close> and \<open>label\<close> read as \<open>undefined\<close>: \<open>undefined\<close> itself, which the
  default parameter turns into \<open>{}\<close>, and a string or a number.
\<close>

fun asOptions :: "'o optionsOrPlaceOrOffset \<Rightarrow> options option" where
  "asOptions (Options opts) = Some opts"
| "asOptions _ = None"

text \<open>A value met where a range is expected: \<open>range instanceof Range\<close> holds of it or not.\<close>

datatype 'p rangeOrOther = ARange "'p Range" | NotARange

subsection \<open>The selection\<close>

text \<open>
  The fields \<open>_ranges\<close>, \<open>_lastRangeBackward\<close>, \<open>_isFake\<close> and \<open>_fakeSelectionLabel\<close>. The
  getters \<open>isFake\<close> and \<open>fakeSelectionLabel\<close> return the last two as they are, so the
  fields carry the getters' names. \<open>fired\<close> is the log of the emitter mixed into the
  class: the names of the events fired on this selection, oldest first.
\<close>

record 'p Selection =
  ranges :: "'p Range list"
  lastRangeBackward :: bool
  isFake :: bool
  fakeSelectionLabel :: string
  fired :: "string list"

text \<open>
  The errors thrown, named after their codes (\<open>view-selection-invalid-range\<close>,
  \<open>view-selection-range-intersects\<close> with its data \<open>addedRange\<close> and \<open>intersectingRange\<close>,
  \<open>view-selection-setFocus-no-ranges\<close>, \<open>view-selection-setTo-required-second-parameter\<close>,
  \<open>view-selection-setTo-not-selectable\<close>).
\<close>

datatype 'p error =
    Invalid_range
  | Range_intersects (addedRange: "'p Range") (intersectingRange: "'p Range")
  | SetFocus_no_ranges
  | SetTo_required_second_parameter
  | SetTo_not_selectable

text \<open>
  A method that may throw returns \<open>Inr\<close> of the selection as it leaves it, or \<open>Inl\<close> of
  the error together with the selection as it stands when the error is thrown: the
  object lives on after the exception, with every write made before it.
\<close>

type_synonym 'p result = "('p error \<times> 'p Selection) + 'p Selection"

definition andThen :: "'p result \<Rightarrow> ('p Selection \<Rightarrow> 'p result) \<Rightarrow> 'p result" where
  "andThen r f = (case r of Inl e \<Rightarrow> Inl e | Inr s \<Rightarrow> f s)"

text \<open>
  What the selection calls on its collaborators and cannot compute itself:
  \<open>Range.isIntersecting\<close>, \<open>Position.compareWith\<close> (it returns a string, compared
  with \<open>'same'\<close> and \<open>'before'\<close>), \<open>Range.getTrimmed\<close>, \<open>Range.createIn\<close>,
  \<open>Range.createOn\<close>, \<open>Range.createCollapsedAt\<close> and \<open>Position.createAt\<close>. They are
  parameters of the model, and total: a call of a collaborator that throws is outside
  it.
\<close>

record ('p, 'n, 'o) collaborators =
  isIntersecting :: "'p Range \<Rightarrow> 'p Range \<Rightarrow> bool"
  compareWith :: "'p \<Rightarrow> 'p \<Rightarrow> string"
  getTrimmed :: "'p Range \<Rightarrow> 'p Range"
  createIn :: "'n \<Rightarrow> 'p Range"
  createOn :: "'n \<Rightarrow> 'p Range"
  createCollapsedAt :: "'n \<Rightarrow> 'o optionsOrPlaceOrOffset \<Rightarrow> 'p Range"
  createAt :: "('p, 'n) itemOrPosition \<Rightarrow> 'o option \<Rightarrow> 'p"

subsubsection \<open>Getters\<close>

definition anchor :: "'p Selection \<Rightarrow> 'p option" where
  "anchor s =
     (if ranges s = [] then None
      else let range' = last (ranges s);
               anchor = (if lastRangeBackward s then end' range' else start range')
           in Some (createFromPosition anchor))"

definition focus :: "'p Selection \<Rightarrow> 'p option" where
  "focus s =
     (if ranges s = [] then None
      else let range' = last (ranges s);
               focus = (if lastRangeBackward s then start range' else end' range')
           in Some (createFromPosition focus))"

definition rangeCount :: "'p Selection \<Rightarrow> nat" where
  "rangeCount s = length (ranges s)"

definition isCollapsed :: "'p Selection \<Rightarrow> bool" where
  "isCollapsed s = (rangeCount s = 1 \<and> Range_isCollapsed (hd (ranges s)))"

definition isBackward :: "'p Selection \<Rightarrow> bool" where
  "isBackward s = (\<not> isCollapsed s \<and> lastRangeBackward s)"

definition getRanges :: "'p Selection \<Rightarrow> 'p Range list" where
  "getRanges s = map createFromRange (ranges s)"

subsubsection \<open>Comparisons\<close>

text \<open>
  Past the test of \<open>rangeCount\<close> both selections have a range, so both anchors and
  both foci are positions; \<open>this.anchor.isEqual( otherSelection.anchor )\<close> is then the
  equality of the two options. The inner loop that sets \<open>found\<close> and breaks is
  \<open>list_ex\<close>; the outer one, which returns false at the first range not found, is
  \<open>list_all\<close>.
\<close>

definition isEqual :: "'p Selection \<Rightarrow> 'p Selection \<Rightarrow> bool" where
  "isEqual this otherSelection =
     (if isFake this \<noteq> isFake otherSelection then False
      else if isFake this \<and> fakeSelectionLabel this \<noteq> fakeSelectionLabel otherSelection
        then False
      else if rangeCount this \<noteq> rangeCount otherSelection then False
      else if rangeCount this = 0 then True
      else if \<not> (anchor this = anchor otherSelection) \<or> \<not> (focus this = focus otherSelection)
        then False
      else list_all
             (\<lambda>thisRange. list_ex (\<lambda>otherRange. thisRange = otherRange) (ranges otherSelection))
             (ranges this))"

definition isSimilar ::
  "('p, 'n, 'o) collaborators \<Rightarrow> 'p Selection \<Rightarrow> 'p Selection \<Rightarrow> bool" where
  "isSimilar C this otherSelection =
     (if isBackward this \<noteq> isBackward otherSelection then False
      else let numOfRangesA = length (getRanges this);
               numOfRangesB = length (getRanges otherSelection)
           in if numOfRangesA \<noteq> numOfRangesB then False
              else if numOfRangesA = 0 then True
              else list_all
                     (\<lambda>rangeA. let rangeA = getTrimmed C rangeA
                       in list_ex
                            (\<lambda>rangeB. let rangeB = getTrimmed C rangeB
                              in start rangeA = start rangeB \<and> end' rangeA = end' rangeB)
                            (getRanges otherSelection))
                     (getRanges this))"

subsubsection \<open>Adding ranges\<close>

text \<open>
  \<open>_pushRange\<close> walks the stored ranges in order and throws at the first one the new
  range intersects: that is \<open>find\<close>. Nothing is written before the throw.
\<close>

definition pushRange :: "('p, 'n, 'o) collaborators \<Rightarrow> 'p Selection \<Rightarrow> 'p Range \<Rightarrow> 'p result" where
  "pushRange C s range' =
     (case find (\<lambda>storedRange. isIntersecting C range' storedRange) (ranges s) of
        Some storedRange \<Rightarrow> Inl (Range_intersects range' storedRange, s)
      | None \<Rightarrow> Inr (s\<lparr>ranges := ranges s @ [createFromRange range']\<rparr>))"

definition addRange ::
  "('p, 'n, 'o) collaborators \<Rightarrow> 'p Selection \<Rightarrow> 'p rangeOrOther \<Rightarrow> bool \<Rightarrow> 'p result" where
  "addRange C s range' isBackward' =
     (case range' of
        NotARange \<Rightarrow> Inl (Invalid_range, s)
      | ARange r \<Rightarrow>
          andThen (pushRange C s r) (\<lambda>s'. Inr (s'\<lparr>lastRangeBackward := isBackward'\<rparr>)))"

text \<open>The loop of \<open>_setRanges\<close>: each range is added forward; the first throw ends it.\<close>

fun addRanges ::
  "('p, 'n, 'o) collaborators \<Rightarrow> 'p Selection \<Rightarrow> 'p rangeOrOther list \<Rightarrow> 'p result" where
  "addRanges C s [] = Inr s"
| "addRanges C s (range' # newRanges) =
     andThen (addRange C s range' False) (\<lambda>s'. addRanges C s' newRanges)"

definition setRanges ::
  "('p, 'n, 'o) collaborators \<Rightarrow> 'p Selection \<Rightarrow> 'p rangeOrOther list \<Rightarrow> bool \<Rightarrow> 'p result" where
  "setRanges C s newRanges isLastBackward =
     andThen (addRanges C (s\<lparr>ranges := []\<rparr>) newRanges)
       (\<lambda>s'. Inr (s'\<lparr>lastRangeBackward := isLastBackward\<rparr>))"

subsubsection \<open>Fake-selection metadata\<close>

definition setFakeOptions :: "'p Selection \<Rightarrow> options option \<Rightarrow> 'p Selection" where
  "setFakeOptions s options' =
     (let opts = (case options' of
                    None \<Rightarrow> \<lparr>backward = None, fake = None, label = None\<rparr>
                  | Some given \<Rightarrow> given)
      in s\<lparr>isFake := truthy (fake opts),
            fakeSelectionLabel := (if truthy (fake opts) then labelOrEmpty (label opts) else [])\<rparr>)"

subsubsection \<open>Moving the focus\<close>

text \<open>
  \<open>this.anchor === null\<close> is the test of the first branch. Past it the selection has a
  range, so \<open>this.focus\<close> is a position too (the \<open>None\<close> of the inner \<open>case\<close> cannot
  occur; it is given the same error). \<open>this._ranges.pop()\<close> is \<open>butlast\<close>.
\<close>

definition setFocus ::
  "('p, 'n, 'o) collaborators \<Rightarrow> 'p Selection \<Rightarrow> ('p, 'n) itemOrPosition \<Rightarrow> 'o option
     \<Rightarrow> 'p result" where
  "setFocus C s itemOrPosition offset =
     (case anchor s of
        None \<Rightarrow> Inl (SetFocus_no_ranges, s)
      | Some anchor' \<Rightarrow>
          (case focus s of
             None \<Rightarrow> Inl (SetFocus_no_ranges, s)
           | Some focus' \<Rightarrow>
               let newFocus = createAt C itemOrPosition offset
               in if compareWith C newFocus focus' = ''same'' then Inr s
                  else let popped = s\<lparr>ranges := butlast (ranges s)\<rparr>
                       in andThen
                            (if compareWith C newFocus anchor' = ''before''
                             then addRange C popped (ARange (Range_new newFocus (Some anchor'))) True
                             else addRange C popped (ARange (Range_new anchor' (Some newFocus))) False)
                            (\<lambda>s'. Inr (s'\<lparr>fired := fired s' @ [''change'']\<rparr>))))"

subsubsection \<open>Setting the selection\<close>

text \<open>
  What \<open>_setTo\<close> is given as \<open>selectable\<close>, one constructor for each branch of its chain
  of tests, in the order of the tests: \<open>null\<close>, a selection (another object than the
  one being set; that one is \<open>setToItself\<close> below), a range, a position, a node, an
  iterable, anything else. An iterable is the list of the values that the loop of
  \<open>_setRanges\<close> draws from it, in that order; it is taken to be finite and to leave the
  selection alone while it is drawn from.
\<close>

datatype ('p, 'n) selectable =
    Null
  | ASelection "'p Selection"
  | RangeSelectable "'p Range"
  | PositionSelectable 'p
  | NodeSelectable 'n
  | Iterable "'p rangeOrOther list"
  | NotSelectable

definition setTo ::
  "('p, 'n, 'o) collaborators \<Rightarrow> 'p Selection \<Rightarrow> ('p, 'n) selectable
     \<Rightarrow> 'o optionsOrPlaceOrOffset \<Rightarrow> options option \<Rightarrow> 'p result" where
  "setTo C s selectable' optionsOrPlaceOrOffset' options' =
     andThen
       (case selectable' of
          Null \<Rightarrow>
            andThen (setRanges C s [] False)
              (\<lambda>s'. Inr (setFakeOptions s' (asOptions optionsOrPlaceOrOffset')))
        | ASelection other \<Rightarrow>
            andThen (setRanges C s (map ARange (getRanges other)) (isBackward other))
              (\<lambda>s'. Inr (setFakeOptions s'
                 (Some \<lparr>backward = None, fake = Some (isFake other),
                        label = Some (fakeSelectionLabel other)\<rparr>)))
        | RangeSelectable r \<Rightarrow>
            andThen (setRanges C s [ARange r] (backwardOf optionsOrPlaceOrOffset'))
              (\<lambda>s'. Inr (setFakeOptions s' (asOptions optionsOrPlaceOrOffset')))
        | PositionSelectable p \<Rightarrow>
            andThen (setRanges C s [ARange (Range_new p None)] False)
              (\<lambda>s'. Inr (setFakeOptions s' (asOptions optionsOrPlaceOrOffset')))
        | NodeSelectable n \<Rightarrow>
            (let backward' = (case options' of None \<Rightarrow> False | Some opts \<Rightarrow> truthy (backward opts))
             in case optionsOrPlaceOrOffset' of
                  Undefined \<Rightarrow> Inl (SetTo_required_second_parameter, s)
                | PlaceIn \<Rightarrow>
                    andThen (setRanges C s [ARange (createIn C n)] backward')
                      (\<lambda>s'. Inr (setFakeOptions s' options'))
                | PlaceOn \<Rightarrow>
                    andThen (setRanges C s [ARange (createOn C n)] backward')
                      (\<lambda>s'. Inr (setFakeOptions s' options'))
                | _ \<Rightarrow>
                    andThen
                      (setRanges C s [ARange (createCollapsedAt C n optionsOrPlaceOrOffset')] backward')
                      (\<lambda>s'. Inr (setFakeOptions s' options')))
        | Iterable newRanges \<Rightarrow>
            andThen (setRanges C s newRanges (backwardOf optionsOrPlaceOrOffset'))
              (\<lambda>s'. Inr (setFakeOptions s' (asOptions optionsOrPlaceOrOffset')))
        | NotSelectable \<Rightarrow> Inl (SetTo_not_selectable, s))
       (\<lambda>s'. Inr (s'\<lparr>fired := fired s' @ [''change'']\<rparr>))"

text \<open>
  \<open>_setTo\<close> given the selection it is called on. \<open>selectable.getRanges()\<close> is a
  generator: it reads \<open>this._ranges\<close> when its first element is asked for, which is in
  the loop of \<open>_setRanges\<close>, after \<open>this._ranges = []\<close>. So no range is added.
  \<open>selectable.isBackward\<close> is an argument of the call and is read before it.
\<close>

definition setToItself :: "('p, 'n, 'o) collaborators \<Rightarrow> 'p Selection \<Rightarrow> 'p result" where
  "setToItself C s =
     andThen
       (andThen (setRanges C s [] (isBackward s))
          (\<lambda>s'. Inr (setFakeOptions s'
             (Some \<lparr>backward = None, fake = Some (isFake s'),
                    label = Some (fakeSelectionLabel s')\<rparr>))))
       (\<lambda>s'. Inr (s'\<lparr>fired := fired s' @ [''change'']\<rparr>))"

text \<open>
  The constructor sets the four fields and calls \<open>_setTo\<close>. When \<open>_setTo\<close> throws, so
  does \<open>new\<close>, and there is no object.
\<close>

definition initial :: "'p Selection" where
  "initial = \<lparr>ranges = [], lastRangeBackward = False, isFake = False,
               fakeSelectionLabel = [], fired = []\<rparr>"

definition Selection_new ::
  "('p, 'n, 'o) collaborators \<Rightarrow> ('p, 'n) selectable \<Rightarrow> 'o optionsOrPlaceOrOffset
     \<Rightarrow> options option \<Rightarrow> 'p result" where
  "Selection_new C selectable' optionsOrPlaceOrOffset' options' =
     setTo C initial selectable' optionsOrPlaceOrOffset' options'"

subsubsection \<open>Reachable selections\<close>

text \<open>
  The states a selection object can be in: the one its constructor leaves, and the
  ones \<open>_setTo\<close> and \<open>_setFocus\<close> leave, whether they return or throw. A listener of
  \<open>change\<close> runs at the very end of \<open>_setTo\<close> and \<open>_setFocus\<close>, so what it calls on the
  selection is one more step from the state that call has reached.
\<close>

inductive reachable :: "('p, 'n, 'o) collaborators \<Rightarrow> 'p Selection \<Rightarrow> bool"
  for C :: "('p, 'n, 'o) collaborators" where
  constructed:
    "Selection_new C selectable' optionsOrPlaceOrOffset' options' = Inr s \<Longrightarrow> reachable C s"
| setTo_returned:
    "reachable C s \<Longrightarrow> setTo C s selectable' optionsOrPlaceOrOffset' options' = Inr s'
       \<Longrightarrow> reachable C s'"
| setTo_threw:
    "reachable C s \<Longrightarrow> setTo C s selectable' optionsOrPlaceOrOffset' options' = Inl (e, s')
       \<Longrightarrow> reachable C s'"
| setToItself_returned:
    "reachable C s \<Longrightarrow> setToItself C s = Inr s' \<Longrightarrow> reachable C s'"
| setToItself_threw:
    "reachable C s \<Longrightarrow> setToItself C s = Inl (e, s') \<Longrightarrow> reachable C s'"
| setFocus_returned:
    "reachable C s \<Longrightarrow> setFocus C s itemOrPosition offset = Inr s' \<Longrightarrow> reachable C s'"
| setFocus_threw:
    "reachable C s \<Longrightarrow> setFocus C s itemOrPosition offset = Inl (e, s') \<Longrightarrow> reachable C s'"

subsection \<open>The identity of position objects\<close>

text \<open>
  \<open>anchor\<close> and \<open>focus\<close> return \<open>Position.createFromPosition( ... )\<close>, a new object, not
  the position stored in the range. To tell the two apart, position objects are given
  addresses: the heap is the list of the positions allocated so far, the address of an
  object is its index, and a new object is put at the end. A stored range is then the
  pair of the addresses of its two positions, a \<open>nat Range\<close>, and the selection an
  \<open>address Selection\<close> beside the heap.
\<close>

type_synonym address = nat

type_synonym 'p heap = "'p list"

text \<open>
  Modelled from the spec: \<open>Position.createFromPosition\<close> as an allocation. The new
  object has the value of the original and an address no object had before.
\<close>

definition Position_copy :: "'p heap \<Rightarrow> address \<Rightarrow> address \<times> 'p heap" where
  "Position_copy h position = (length h, h @ [h ! position])"

definition anchorObject :: "'p heap \<Rightarrow> address Selection \<Rightarrow> address option \<times> 'p heap" where
  "anchorObject h s =
     (if ranges s = [] then (None, h)
      else let range' = last (ranges s);
               anchor = (if lastRangeBackward s then end' range' else start range')
           in case Position_copy h anchor of (copy, h') \<Rightarrow> (Some copy, h'))"

definition focusObject :: "'p heap \<Rightarrow> address Selection \<Rightarrow> address option \<times> 'p heap" where
  "focusObject h s =
     (if ranges s = [] then (None, h)
      else let range' = last (ranges s);
               focus = (if lastRangeBackward s then start range' else end' range')
           in case Position_copy h focus of (copy, h') \<Rightarrow> (Some copy, h'))"

text \<open>The selection of values that a selection of addresses stands for in a heap.\<close>

definition valuesOf :: "'p heap \<Rightarrow> address Selection \<Rightarrow> 'p Selection" where
  "valuesOf h s =
     \<lparr>ranges = map (\<lambda>r. \<lparr>start = h ! start r, end' = h ! end' r\<rparr>) (ranges s),
      lastRangeBackward = lastRangeBackward s,
      isFake = isFake s,
      fakeSelectionLabel = fakeSelectionLabel s,
      fired = fired s\<rparr>"

subsection \<open>The identity of ranges and of the array that holds them\<close>

text \<open>
  When the focus does not move, \<open>_setFocus\<close> is to leave the internal state as it is:
  the same array \<open>_ranges\<close> holding the same range objects, not equal ones built anew.
  To say so, ranges and arrays are given addresses as well. A store holds the position
  objects, the range objects (each the addresses of its start and of its end) and the
  arrays (each the addresses of the ranges it holds, in order); the address of an
  object is its index, and a new object is put at the end. The selection object holds
  the address of its array beside its other fields, which carry the names of the
  fields above with a prime.
\<close>

record 'p store =
  positionObjects :: "'p list"
  rangeObjects :: "address Range list"
  arrayObjects :: "address list list"

record SelectionObject =
  ranges' :: address
  lastRangeBackward' :: bool
  isFake' :: bool
  fakeSelectionLabel' :: string
  fired' :: "string list"

text \<open>The errors of \<open>_setFocus\<close> and of what it calls, with the ranges given by address.\<close>

datatype thrown =
    Invalid_range'
  | Range_intersects' (addedRange': address) (intersectingRange': address)
  | SetFocus_no_ranges'

text \<open>A value met where a range is expected, by address when it is a \<open>Range\<close>.\<close>

datatype rangeObjectOrOther = ARangeObject address | NotARangeObject

text \<open>
  A method returns the store as it leaves it, and the selection object, returned or
  thrown with the error.
\<close>

type_synonym 'p outcome = "'p store \<times> (thrown \<times> SelectionObject + SelectionObject)"

text \<open>
  Modelled from the spec: the constructor of a position, as an allocation, and
  \<open>Position.createFromPosition\<close>, which allocates a position with the value of the
  one it is given.
\<close>

definition newPosition :: "'p store \<Rightarrow> 'p \<Rightarrow> address \<times> 'p store" where
  "newPosition st v =
     (length (positionObjects st), st\<lparr>positionObjects := positionObjects st @ [v]\<rparr>)"

definition copyPosition :: "'p store \<Rightarrow> address \<Rightarrow> address \<times> 'p store" where
  "copyPosition st position = newPosition st (positionObjects st ! position)"

text \<open>
  Modelled from the spec: \<open>new Range( start, end )\<close>, which stores copies of the two
  positions in a new range, and \<open>Range.createFromRange\<close>, which does so from the two
  positions of a range.
\<close>

definition newRange :: "'p store \<Rightarrow> address \<Rightarrow> address \<Rightarrow> address \<times> 'p store" where
  "newRange st s e =
     (case copyPosition st s of
        (s', st1) \<Rightarrow>
          (case copyPosition st1 e of
             (e', st2) \<Rightarrow>
               (length (rangeObjects st2),
                st2\<lparr>rangeObjects := rangeObjects st2 @ [\<lparr>start = s', end' = e'\<rparr>]\<rparr>)))"

definition copyRange :: "'p store \<Rightarrow> address \<Rightarrow> address \<times> 'p store" where
  "copyRange st range' =
     newRange st (start (rangeObjects st ! range')) (end' (rangeObjects st ! range'))"

text \<open>
  What \<open>_setFocus\<close> is given in the store is a position object or an item; the
  collaborator \<open>Position.createAt\<close> computes on the value and returns a new position.
\<close>

definition itemOrPositionValue ::
  "'p store \<Rightarrow> (address, 'n) itemOrPosition \<Rightarrow> ('p, 'n) itemOrPosition" where
  "itemOrPositionValue st itemOrPosition =
     (case itemOrPosition of
        APosition position \<Rightarrow> APosition (positionObjects st ! position)
      | AnItem item \<Rightarrow> AnItem item)"

definition createAtInStore ::
  "('p, 'n, 'o) collaborators \<Rightarrow> 'p store \<Rightarrow> (address, 'n) itemOrPosition \<Rightarrow> 'o option
     \<Rightarrow> address \<times> 'p store" where
  "createAtInStore C st itemOrPosition offset =
     newPosition st (createAt C (itemOrPositionValue st itemOrPosition) offset)"

text \<open>The value of a range object: the values of its two positions.\<close>

definition rangeValue :: "'p store \<Rightarrow> address \<Rightarrow> 'p Range" where
  "rangeValue st range' =
     \<lparr>start = positionObjects st ! start (rangeObjects st ! range'),
      end' = positionObjects st ! end' (rangeObjects st ! range')\<rparr>"

text \<open>
  The getters \<open>anchor\<close> and \<open>focus\<close>, and \<open>_pushRange\<close>, \<open>_addRange\<close> and \<open>_setFocus\<close>,
  line by line as above, on the store. \<open>_setFocus\<close> reads \<open>this.anchor\<close> twice, for the
  test against \<open>null\<close> and for \<open>const anchor\<close>, and each reading allocates a copy.
  \<open>this._ranges.pop()\<close> and \<open>this._ranges.push( ... )\<close> write to the array in place.
\<close>

definition anchorInStore :: "'p store \<Rightarrow> SelectionObject \<Rightarrow> address option \<times> 'p store" where
  "anchorInStore st s =
     (let stored = arrayObjects st ! ranges' s
      in if stored = [] then (None, st)
         else let range' = rangeObjects st ! last stored;
                  anchor = (if lastRangeBackward' s then end' range' else start range')
              in case copyPosition st anchor of (copy, st') \<Rightarrow> (Some copy, st'))"

definition focusInStore :: "'p store \<Rightarrow> SelectionObject \<Rightarrow> address option \<times> 'p store" where
  "focusInStore st s =
     (let stored = arrayObjects st ! ranges' s
      in if stored = [] then (None, st)
         else let range' = rangeObjects st ! last stored;
                  focus = (if lastRangeBackward' s then start range' else end' range')
              in case copyPosition st focus of (copy, st') \<Rightarrow> (Some copy, st'))"

definition pushRangeInStore ::
  "('p, 'n, 'o) collaborators \<Rightarrow> 'p store \<Rightarrow> SelectionObject \<Rightarrow> address \<Rightarrow> 'p outcome" where
  "pushRangeInStore C st s range' =
     (case find (\<lambda>storedRange. isIntersecting C (rangeValue st range') (rangeValue st storedRange))
             (arrayObjects st ! ranges' s) of
        Some storedRange \<Rightarrow> (st, Inl (Range_intersects' range' storedRange, s))
      | None \<Rightarrow>
          (case copyRange st range' of
             (copy, st') \<Rightarrow>
               (st'\<lparr>arrayObjects :=
                      (arrayObjects st')[ranges' s := arrayObjects st' ! ranges' s @ [copy]]\<rparr>,
                Inr s)))"

definition addRangeInStore ::
  "('p, 'n, 'o) collaborators \<Rightarrow> 'p store \<Rightarrow> SelectionObject \<Rightarrow> rangeObjectOrOther \<Rightarrow> bool
     \<Rightarrow> 'p outcome" where
  "addRangeInStore C st s range' isBackward' =
     (case range' of
        NotARangeObject \<Rightarrow> (st, Inl (Invalid_range', s))
      | ARangeObject r \<Rightarrow>
          (case pushRangeInStore C st s r of
             (st', Inl e) \<Rightarrow> (st', Inl e)
           | (st', Inr s') \<Rightarrow> (st', Inr (s'\<lparr>lastRangeBackward' := isBackward'\<rparr>))))"

definition setFocusInStore ::
  "('p, 'n, 'o) collaborators \<Rightarrow> 'p store \<Rightarrow> SelectionObject \<Rightarrow> (address, 'n) itemOrPosition
     \<Rightarrow> 'o option \<Rightarrow> 'p outcome" where
  "setFocusInStore C st s itemOrPosition offset =
     (case anchorInStore st s of
        (None, st1) \<Rightarrow> (st1, Inl (SetFocus_no_ranges', s))
      | (Some tested, st1) \<Rightarrow>
          (case createAtInStore C st1 itemOrPosition offset of
             (newFocus, st2) \<Rightarrow>
               (case focusInStore st2 s of
                  (None, st3) \<Rightarrow> (st3, Inl (SetFocus_no_ranges', s))
                | (Some focus', st3) \<Rightarrow>
                    if compareWith C (positionObjects st3 ! newFocus) (positionObjects st3 ! focus')
                         = ''same''
                    then (st3, Inr s)
                    else
                      (case anchorInStore st3 s of
                         (None, st4) \<Rightarrow> (st4, Inl (SetFocus_no_ranges', s))
                       | (Some anchor', st4) \<Rightarrow>
                           let popped = st4\<lparr>arrayObjects :=
                                 (arrayObjects st4)
                                   [ranges' s := butlast (arrayObjects st4 ! ranges' s)]\<rparr>
                           in case
                                (if compareWith C (positionObjects popped ! newFocus)
                                      (positionObjects popped ! anchor') = ''before''
                                 then (case newRange popped newFocus anchor' of
                                         (r, st5) \<Rightarrow> addRangeInStore C st5 s (ARangeObject r) True)
                                 else (case newRange popped anchor' newFocus of
                                         (r, st5) \<Rightarrow> addRangeInStore C st5 s (ARangeObject r) False))
                              of
                                (st6, Inl e) \<Rightarrow> (st6, Inl e)
                              | (st6, Inr s') \<Rightarrow>
                                  (st6, Inr (s'\<lparr>fired' := fired' s' @ [''change'']\<rparr>))))))"

text \<open>
  The selection of values that a selection object stands for in a store, and the same
  for an error and for what a method returns.
\<close>

definition selectionValue :: "'p store \<Rightarrow> SelectionObject \<Rightarrow> 'p Selection" where
  "selectionValue st s =
     \<lparr>ranges = map (rangeValue st) (arrayObjects st ! ranges' s),
      lastRangeBackward = lastRangeBackward' s,
      isFake = isFake' s,
      fakeSelectionLabel = fakeSelectionLabel' s,
      fired = fired' s\<rparr>"

fun thrownValue :: "'p store \<Rightarrow> thrown \<Rightarrow> 'p error" where
  "thrownValue st Invalid_range' = Invalid_range"
| "thrownValue st (Range_intersects' added stored) =
     Range_intersects (rangeValue st added) (rangeValue st stored)"
| "thrownValue st SetFocus_no_ranges' = SetFocus_no_ranges"

fun outcomeValue :: "'p outcome \<Rightarrow> 'p result" where
  "outcomeValue (st, Inr s) = Inr (selectionValue st s)"
| "outcomeValue (st, Inl (e, s)) = Inl (thrownValue st e, selectionValue st s)"

text \<open>A range object all of whose parts are in the store.\<close>

abbreviation allocated :: "'p store \<Rightarrow> address \<Rightarrow> bool" where
  "allocated st r \<equiv>
     r < length (rangeObjects st) \<and>
     start (rangeObjects st ! r) < length (positionObjects st) \<and>
     end' (rangeObjects st ! r) < length (positionObjects st)"

subsection \<open>A sample of collaborators\<close>

text \<open>
  For the evaluation of the model on concrete inputs: a document that is one text, a
  position being an offset in it and a node a text of that length. Positions compare
  as numbers; two ranges intersect when each starts before the other ends, so that a
  collapsed range intersects neither itself nor a range it touches; trimming changes
  nothing.
\<close>

definition linear :: "(nat, nat, nat) collaborators" where
  "linear =
     \<lparr>isIntersecting = (\<lambda>a b. start a < end' b \<and> start b < end' a),
      compareWith = (\<lambda>p q. if p = q then ''same'' else if p < q then ''before'' else ''after''),
      getTrimmed = (\<lambda>r. r),
      createIn = (\<lambda>n. \<lparr>start = 0, end' = n\<rparr>),
      createOn = (\<lambda>n. \<lparr>start = 0, end' = n\<rparr>),
      createCollapsedAt =
        (\<lambda>n place. case place of PlaceOrOffset k \<Rightarrow> \<lparr>start = k, end' = k\<rparr>
                              | _ \<Rightarrow> \<lparr>start = 0, end' = 0\<rparr>),
      createAt =
        (\<lambda>itemOrPosition offset.
           case itemOrPosition of
             APosition p \<Rightarrow> p
           | AnItem n \<Rightarrow> (case offset of None \<Rightarrow> 0 | Some k \<Rightarrow> k))\<rparr>"

text \<open>
  Sample selections over that document, each named after what it holds. Those of
  values are states that the constructor leaves; the lemmas on the samples give its
  arguments. The last three are a selection of addresses over a heap of positions,
  and a store with a selection object whose value is \<open>twoRanges\<close>.
\<close>

definition twoRanges :: "nat Selection" where
  "twoRanges =
     \<lparr>ranges = [\<lparr>start = 0, end' = 2\<rparr>, \<lparr>start = 3, end' = 5\<rparr>], lastRangeBackward = False,
      isFake = False, fakeSelectionLabel = [], fired = [''change'']\<rparr>"

definition threeRanges :: "nat Selection" where
  "threeRanges =
     \<lparr>ranges = [\<lparr>start = 0, end' = 2\<rparr>, \<lparr>start = 3, end' = 5\<rparr>, \<lparr>start = 6, end' = 8\<rparr>],
      lastRangeBackward = False, isFake = False, fakeSelectionLabel = [],
      fired = [''change'']\<rparr>"

definition threeRangesSwapped :: "nat Selection" where
  "threeRangesSwapped =
     \<lparr>ranges = [\<lparr>start = 3, end' = 5\<rparr>, \<lparr>start = 0, end' = 2\<rparr>, \<lparr>start = 6, end' = 8\<rparr>],
      lastRangeBackward = False, isFake = False, fakeSelectionLabel = [],
      fired = [''change'']\<rparr>"

definition oneRange :: "nat Selection" where
  "oneRange =
     \<lparr>ranges = [\<lparr>start = 2, end' = 4\<rparr>], lastRangeBackward = False,
      isFake = False, fakeSelectionLabel = [], fired = [''change'']\<rparr>"

definition fakeBackward :: "nat Selection" where
  "fakeBackward =
     \<lparr>ranges = [\<lparr>start = 0, end' = 2\<rparr>], lastRangeBackward = True,
      isFake = True, fakeSelectionLabel = ''widget'', fired = [''change'']\<rparr>"

definition plainBackward :: "nat Selection" where
  "plainBackward =
     \<lparr>ranges = [\<lparr>start = 0, end' = 2\<rparr>], lastRangeBackward = True,
      isFake = False, fakeSelectionLabel = [], fired = [''change'']\<rparr>"

definition collapsedOneOneTwo :: "nat Selection" where
  "collapsedOneOneTwo =
     \<lparr>ranges = [\<lparr>start = 1, end' = 1\<rparr>, \<lparr>start = 1, end' = 1\<rparr>, \<lparr>start = 2, end' = 2\<rparr>],
      lastRangeBackward = False, isFake = False, fakeSelectionLabel = [],
      fired = [''change'']\<rparr>"

definition collapsedOneTwoTwo :: "nat Selection" where
  "collapsedOneTwoTwo =
     \<lparr>ranges = [\<lparr>start = 1, end' = 1\<rparr>, \<lparr>start = 2, end' = 2\<rparr>, \<lparr>start = 2, end' = 2\<rparr>],
      lastRangeBackward = False, isFake = False, fakeSelectionLabel = [],
      fired = [''change'']\<rparr>"

definition emptyForward :: "nat Selection" where
  "emptyForward =
     \<lparr>ranges = [], lastRangeBackward = False, isFake = False, fakeSelectionLabel = [],
      fired = [''change'']\<rparr>"

definition emptyBackward :: "nat Selection" where
  "emptyBackward =
     \<lparr>ranges = [], lastRangeBackward = True, isFake = False, fakeSelectionLabel = [],
      fired = [''change'']\<rparr>"

definition storedBackward :: "address Selection" where
  "storedBackward =
     \<lparr>ranges = [\<lparr>start = 0, end' = 1\<rparr>], lastRangeBackward = True,
      isFake = False, fakeSelectionLabel = [], fired = [''change'']\<rparr>"

definition twoRangesStore :: "nat store" where
  "twoRangesStore =
     \<lparr>positionObjects = [0, 2, 3, 5],
      rangeObjects = [\<lparr>start = 0, end' = 1\<rparr>, \<lparr>start = 2, end' = 3\<rparr>],
      arrayObjects = [[0, 1]]\<rparr>"

definition twoRangesObject :: SelectionObject where
  "twoRangesObject =
     \<lparr>ranges' = 0, lastRangeBackward' = False, isFake' = False, fakeSelectionLabel' = [],
      fired' = [''change'']\<rparr>"

subsection \<open>No stored range intersects an earlier one\<close>

text \<open>
  \<open>_pushRange\<close> tests the new range against each stored one, with the new range as
  the receiver of \<open>isIntersecting\<close>. What the stored list satisfies is then this.
\<close>

abbreviation laterAvoidsEarlier :: "('p, 'n, 'o) collaborators \<Rightarrow> 'p Range list \<Rightarrow> bool" where
  "laterAvoidsEarlier C rs \<equiv> sorted_wrt (\<lambda>a b. \<not> isIntersecting C b a) rs"

section \<open>Lemmas\<close>

subsection \<open>The calls, one by one\<close>

lemma andThen_Inl [simp]: "andThen (Inl e) f = Inl e"
  by (simp add: andThen_def)

lemma andThen_Inr [simp]: "andThen (Inr s) f = f s"
  by (simp add: andThen_def)

lemma andThen_eq_Inr: "andThen r f = Inr s' \<longleftrightarrow> (\<exists>t. r = Inr t \<and> f t = Inr s')"
  by (cases r) auto

lemma andThen_eq_Inl: "andThen r f = Inl e \<longleftrightarrow> (r = Inl e \<or> (\<exists>t. r = Inr t \<and> f t = Inl e))"
  by (cases r) auto

lemma createFromRange_id [simp]: "createFromRange r = r"
  by (simp add: createFromRange_def Range_new_def createFromPosition_def)

lemma getRanges_id [simp]: "getRanges s = ranges s"
  by (simp add: getRanges_def map_idI)

lemma find_Some_mem: "find P xs = Some x \<Longrightarrow> x \<in> set xs \<and> P x"
  by (induction xs) (auto split: if_splits)

lemma pushRange_eq_Inr:
  "pushRange C s r = Inr s' \<longleftrightarrow>
     (\<forall>x \<in> set (ranges s). \<not> isIntersecting C r x) \<and> s' = s\<lparr>ranges := ranges s @ [r]\<rparr>"
  by (auto simp: pushRange_def find_None_iff split: option.splits dest: find_Some_mem)

lemma pushRange_eq_Inl:
  "pushRange C s r = Inl (e, s') \<longleftrightarrow>
     (\<exists>x. find (isIntersecting C r) (ranges s) = Some x \<and> e = Range_intersects r x) \<and> s' = s"
  by (auto simp: pushRange_def split: option.splits)

lemma addRange_eq_Inr:
  "addRange C s v b = Inr s' \<longleftrightarrow>
     (\<exists>r. v = ARange r \<and> (\<forall>x \<in> set (ranges s). \<not> isIntersecting C r x) \<and>
          s' = s\<lparr>ranges := ranges s @ [r], lastRangeBackward := b\<rparr>)"
  by (cases v) (auto simp: addRange_def andThen_eq_Inr pushRange_eq_Inr)

lemma addRange_eq_Inl:
  "addRange C s v b = Inl (e, s') \<longleftrightarrow>
     s' = s \<and> (v = NotARange \<and> e = Invalid_range \<or>
       (\<exists>r x. v = ARange r \<and> find (isIntersecting C r) (ranges s) = Some x \<and>
              e = Range_intersects r x))"
  by (cases v) (auto simp: addRange_def andThen_eq_Inl pushRange_eq_Inl pushRange_eq_Inr)

lemma addRanges_eq_Inr:
  "addRanges C s vs = Inr s' \<longleftrightarrow>
     (\<exists>rs. vs = map ARange rs \<and> laterAvoidsEarlier C rs \<and>
           (\<forall>x \<in> set (ranges s). \<forall>r \<in> set rs. \<not> isIntersecting C r x) \<and>
           s' = s\<lparr>ranges := ranges s @ rs,
                   lastRangeBackward := (if rs = [] then lastRangeBackward s else False)\<rparr>)"
proof (induction vs arbitrary: s)
  case Nil
  then show ?case by auto
next
  case (Cons v vs)
  show ?case
  proof
    assume "addRanges C s (v # vs) = Inr s'"
    then obtain t where t: "addRange C s v False = Inr t" and rest: "addRanges C t vs = Inr s'"
      by (auto simp: andThen_eq_Inr)
    from t obtain r where r: "v = ARange r" "\<forall>x \<in> set (ranges s). \<not> isIntersecting C r x"
      "t = s\<lparr>ranges := ranges s @ [r], lastRangeBackward := False\<rparr>"
      by (auto simp: addRange_eq_Inr)
    from rest Cons.IH [of t] obtain rs where rs: "vs = map ARange rs" "laterAvoidsEarlier C rs"
      "\<forall>x \<in> set (ranges t). \<forall>r \<in> set rs. \<not> isIntersecting C r x"
      "s' = t\<lparr>ranges := ranges t @ rs,
              lastRangeBackward := (if rs = [] then lastRangeBackward t else False)\<rparr>"
      by auto
    have "v # vs = map ARange (r # rs)" using r rs by simp
    moreover have "laterAvoidsEarlier C (r # rs)" using r rs by auto
    moreover have "\<forall>x \<in> set (ranges s). \<forall>q \<in> set (r # rs). \<not> isIntersecting C q x"
      using r rs by auto
    moreover have "s' = s\<lparr>ranges := ranges s @ (r # rs),
        lastRangeBackward := (if r # rs = [] then lastRangeBackward s else False)\<rparr>"
      using r rs by simp
    ultimately show "\<exists>rs. v # vs = map ARange rs \<and> laterAvoidsEarlier C rs \<and>
           (\<forall>x \<in> set (ranges s). \<forall>r \<in> set rs. \<not> isIntersecting C r x) \<and>
           s' = s\<lparr>ranges := ranges s @ rs,
                   lastRangeBackward := (if rs = [] then lastRangeBackward s else False)\<rparr>"
      by - (rule exI [of _ "r # rs"], blast)
  next
    assume "\<exists>rs. v # vs = map ARange rs \<and> laterAvoidsEarlier C rs \<and>
           (\<forall>x \<in> set (ranges s). \<forall>r \<in> set rs. \<not> isIntersecting C r x) \<and>
           s' = s\<lparr>ranges := ranges s @ rs,
                   lastRangeBackward := (if rs = [] then lastRangeBackward s else False)\<rparr>"
    then obtain rs0 where rs0: "v # vs = map ARange rs0" "laterAvoidsEarlier C rs0"
      "\<forall>x \<in> set (ranges s). \<forall>r \<in> set rs0. \<not> isIntersecting C r x"
      "s' = s\<lparr>ranges := ranges s @ rs0,
                   lastRangeBackward := (if rs0 = [] then lastRangeBackward s else False)\<rparr>"
      by (elim exE conjE)
    then obtain r rs where split: "rs0 = r # rs" "v = ARange r" "vs = map ARange rs"
      by (cases rs0) auto
    let ?t = "s\<lparr>ranges := ranges s @ [r], lastRangeBackward := False\<rparr>"
    have step: "addRange C s v False = Inr ?t"
      using rs0 split by (auto simp: addRange_eq_Inr)
    have "addRanges C ?t vs = Inr s'"
      unfolding Cons.IH [of ?t] using rs0 split by (intro exI [of _ rs]) auto
    with step show "addRanges C s (v # vs) = Inr s'" by simp
  qed
qed

lemma addRanges_append:
  "addRanges C s (xs @ ys) = andThen (addRanges C s xs) (\<lambda>s'. addRanges C s' ys)"
proof (induction xs arbitrary: s)
  case Nil
  then show ?case by simp
next
  case (Cons x xs)
  then show ?case by (cases "addRange C s x False") simp_all
qed

lemma addRanges_eq_Inl:
  "addRanges C s vs = Inl (e, t) \<longleftrightarrow>
     (\<exists>k < length vs. addRanges C s (take k vs) = Inr t \<and> addRange C t (vs ! k) False = Inl (e, t))"
proof (induction vs arbitrary: s)
  case Nil
  then show ?case by simp
next
  case (Cons v vs)
  show ?case
  proof
    assume a: "addRanges C s (v # vs) = Inl (e, t)"
    show "\<exists>k < length (v # vs). addRanges C s (take k (v # vs)) = Inr t \<and>
            addRange C t ((v # vs) ! k) False = Inl (e, t)"
    proof (cases "addRange C s v False")
      case (Inl x)
      with a have "x = (e, t)" by simp
      with Inl have "t = s" by (simp add: addRange_eq_Inl)
      with Inl \<open>x = (e, t)\<close> show ?thesis by (intro exI [of _ 0]) simp
    next
      case (Inr u)
      with a have "addRanges C u vs = Inl (e, t)" by simp
      with Cons.IH [of u] obtain k where k: "k < length vs" "addRanges C u (take k vs) = Inr t"
        "addRange C t (vs ! k) False = Inl (e, t)" by blast
      with Inr show ?thesis by (intro exI [of _ "Suc k"]) simp
    qed
  next
    assume "\<exists>k < length (v # vs). addRanges C s (take k (v # vs)) = Inr t \<and>
            addRange C t ((v # vs) ! k) False = Inl (e, t)"
    then obtain k where k: "k < length (v # vs)" "addRanges C s (take k (v # vs)) = Inr t"
      "addRange C t ((v # vs) ! k) False = Inl (e, t)" by blast
    show "addRanges C s (v # vs) = Inl (e, t)"
    proof (cases k)
      case 0
      with k show ?thesis by simp
    next
      case (Suc j)
      with k obtain u where u: "addRange C s v False = Inr u" "addRanges C u (take j vs) = Inr t"
        by (auto simp: andThen_eq_Inr)
      from k Suc have "j < length vs" "addRange C t (vs ! j) False = Inl (e, t)" by simp_all
      with u Cons.IH [of u] have "addRanges C u vs = Inl (e, t)" by blast
      with u show ?thesis by simp
    qed
  qed
qed

lemma setRanges_eq_Inr:
  "setRanges C s vs b = Inr s' \<longleftrightarrow>
     (\<exists>rs. vs = map ARange rs \<and> laterAvoidsEarlier C rs \<and>
           s' = s\<lparr>ranges := rs, lastRangeBackward := b\<rparr>)"
proof
  assume "setRanges C s vs b = Inr s'"
  then obtain t where t: "addRanges C (s\<lparr>ranges := []\<rparr>) vs = Inr t"
    and s': "s' = t\<lparr>lastRangeBackward := b\<rparr>"
    by (auto simp: setRanges_def andThen_eq_Inr)
  from t obtain rs where "vs = map ARange rs" "laterAvoidsEarlier C rs"
    "t = s\<lparr>ranges := rs, lastRangeBackward := (if rs = [] then lastRangeBackward s else False)\<rparr>"
    unfolding addRanges_eq_Inr by auto
  with s' show "\<exists>rs. vs = map ARange rs \<and> laterAvoidsEarlier C rs \<and>
           s' = s\<lparr>ranges := rs, lastRangeBackward := b\<rparr>"
    by (intro exI [of _ rs]) simp
next
  assume "\<exists>rs. vs = map ARange rs \<and> laterAvoidsEarlier C rs \<and>
           s' = s\<lparr>ranges := rs, lastRangeBackward := b\<rparr>"
  then obtain rs where rs: "vs = map ARange rs" "laterAvoidsEarlier C rs"
    "s' = s\<lparr>ranges := rs, lastRangeBackward := b\<rparr>" by (elim exE conjE)
  have "addRanges C (s\<lparr>ranges := []\<rparr>) vs =
      Inr (s\<lparr>ranges := rs, lastRangeBackward := (if rs = [] then lastRangeBackward s else False)\<rparr>)"
    unfolding addRanges_eq_Inr using rs by (intro exI [of _ rs]) simp
  with rs show "setRanges C s vs b = Inr s'" by (simp add: setRanges_def)
qed

lemma setRanges_eq_Inl:
  "setRanges C s vs b = Inl (e, t) \<longleftrightarrow>
     (\<exists>k < length vs. \<exists>rs. take k vs = map ARange rs \<and> laterAvoidsEarlier C rs \<and>
        t = s\<lparr>ranges := rs, lastRangeBackward := (if rs = [] then lastRangeBackward s else False)\<rparr> \<and>
        addRange C t (vs ! k) False = Inl (e, t))"
  by (auto simp: setRanges_def andThen_eq_Inl addRanges_eq_Inr addRanges_eq_Inl)

subsection \<open>What each call leaves\<close>

lemma setRanges_leaves:
  assumes "setRanges C s vs b = Inr t \<or> setRanges C s vs b = Inl (e, t)"
  shows "laterAvoidsEarlier C (ranges t) \<and> isFake t = isFake s \<and>
         fakeSelectionLabel t = fakeSelectionLabel s \<and> fired t = fired s"
  using assms by (auto simp: setRanges_eq_Inr setRanges_eq_Inl)

lemma setFakeOptions_fields [simp]:
  "ranges (setFakeOptions s opts) = ranges s"
  "lastRangeBackward (setFakeOptions s opts) = lastRangeBackward s"
  "fired (setFakeOptions s opts) = fired s"
  by (simp_all add: setFakeOptions_def Let_def)

lemma setFakeOptions_label:
  "\<not> isFake (setFakeOptions s opts) \<Longrightarrow> fakeSelectionLabel (setFakeOptions s opts) = []"
  by (simp add: setFakeOptions_def Let_def)

lemma setRanges_setFakeOptions_leaves:
  assumes "andThen (setRanges C s vs b) (\<lambda>s'. Inr (setFakeOptions s' opts)) = r"
    and "r = Inr t \<or> r = Inl (e, t)"
    and "\<not> isFake s \<longrightarrow> fakeSelectionLabel s = []"
  shows "laterAvoidsEarlier C (ranges t) \<and> (\<not> isFake t \<longrightarrow> fakeSelectionLabel t = [])"
proof (cases "setRanges C s vs b")
  case (Inl x)
  with assms(1,2) have "setRanges C s vs b = Inl (e, t)" by auto
  from setRanges_leaves [OF disjI2, OF this] assms(3) show ?thesis by simp
next
  case (Inr u)
  with assms(1,2) have t: "t = setFakeOptions u opts" by auto
  from setRanges_leaves [OF disjI1, OF Inr] show ?thesis
    unfolding t using setFakeOptions_label [of u opts] by simp
qed

lemma fired_update_fields [simp]:
  "ranges (s\<lparr>fired := x\<rparr>) = ranges s" "isFake (s\<lparr>fired := x\<rparr>) = isFake s"
  "fakeSelectionLabel (s\<lparr>fired := x\<rparr>) = fakeSelectionLabel s"
  by simp_all

lemma andThen_fire_leaves:
  assumes "andThen r (\<lambda>s'. Inr (s'\<lparr>fired := fired s' @ [''change'']\<rparr>)) = Inr t
           \<or> andThen r (\<lambda>s'. Inr (s'\<lparr>fired := fired s' @ [''change'']\<rparr>)) = Inl (e, t)"
  shows "\<exists>u. (r = Inr u \<or> r = Inl (e, u)) \<and> ranges t = ranges u \<and> isFake t = isFake u \<and>
             fakeSelectionLabel t = fakeSelectionLabel u"
  using assms by (cases r) auto

lemma setTo_leaves:
  assumes "setTo C s sel a opts = Inr t \<or> setTo C s sel a opts = Inl (e, t)"
    and "laterAvoidsEarlier C (ranges s)"
    and "\<not> isFake s \<longrightarrow> fakeSelectionLabel s = []"
  shows "laterAvoidsEarlier C (ranges t) \<and> (\<not> isFake t \<longrightarrow> fakeSelectionLabel t = [])"
proof -
  from assms(1) obtain r u where r: "r = Inr u \<or> r = Inl (e, u)"
    and same: "ranges t = ranges u" "isFake t = isFake u"
      "fakeSelectionLabel t = fakeSelectionLabel u"
    and r_def: "r = (case sel of
          Null \<Rightarrow>
            andThen (setRanges C s [] False)
              (\<lambda>s'. Inr (setFakeOptions s' (asOptions a)))
        | ASelection other \<Rightarrow>
            andThen (setRanges C s (map ARange (getRanges other)) (isBackward other))
              (\<lambda>s'. Inr (setFakeOptions s'
                 (Some \<lparr>backward = None, fake = Some (isFake other),
                        label = Some (fakeSelectionLabel other)\<rparr>)))
        | RangeSelectable r \<Rightarrow>
            andThen (setRanges C s [ARange r] (backwardOf a))
              (\<lambda>s'. Inr (setFakeOptions s' (asOptions a)))
        | PositionSelectable p \<Rightarrow>
            andThen (setRanges C s [ARange (Range_new p None)] False)
              (\<lambda>s'. Inr (setFakeOptions s' (asOptions a)))
        | NodeSelectable n \<Rightarrow>
            (let backward' = (case opts of None \<Rightarrow> False | Some opts \<Rightarrow> truthy (backward opts))
             in case a of
                  Undefined \<Rightarrow> Inl (SetTo_required_second_parameter, s)
                | PlaceIn \<Rightarrow>
                    andThen (setRanges C s [ARange (createIn C n)] backward')
                      (\<lambda>s'. Inr (setFakeOptions s' opts))
                | PlaceOn \<Rightarrow>
                    andThen (setRanges C s [ARange (createOn C n)] backward')
                      (\<lambda>s'. Inr (setFakeOptions s' opts))
                | _ \<Rightarrow>
                    andThen
                      (setRanges C s [ARange (createCollapsedAt C n a)] backward')
                      (\<lambda>s'. Inr (setFakeOptions s' opts)))
        | Iterable newRanges \<Rightarrow>
            andThen (setRanges C s newRanges (backwardOf a))
              (\<lambda>s'. Inr (setFakeOptions s' (asOptions a)))
        | NotSelectable \<Rightarrow> Inl (SetTo_not_selectable, s))"
    unfolding setTo_def using andThen_fire_leaves by blast
  have key: "laterAvoidsEarlier C (ranges u) \<and> (\<not> isFake u \<longrightarrow> fakeSelectionLabel u = [])"
    if "r = andThen (setRanges C s vs b) (\<lambda>s'. Inr (setFakeOptions s' o'))" for vs b o'
    using setRanges_setFakeOptions_leaves [OF that [symmetric] r assms(3)] .
  have "laterAvoidsEarlier C (ranges u) \<and> (\<not> isFake u \<longrightarrow> fakeSelectionLabel u = [])"
  proof (cases sel)
    case Null
    show ?thesis by (rule key) (simp add: r_def Null)
  next
    case (ASelection other)
    show ?thesis by (rule key) (simp add: r_def ASelection)
  next
    case (RangeSelectable x)
    show ?thesis by (rule key) (simp add: r_def RangeSelectable)
  next
    case (PositionSelectable x)
    show ?thesis by (rule key) (simp add: r_def PositionSelectable)
  next
    case (NodeSelectable n)
    show ?thesis
    proof (cases a)
      case Undefined
      with NodeSelectable r r_def assms(2,3) show ?thesis by auto
    next
      case (Options x)
      show ?thesis by (rule key) (simp add: r_def NodeSelectable Options Let_def)
    next
      case PlaceIn
      show ?thesis by (rule key) (simp add: r_def NodeSelectable PlaceIn Let_def)
    next
      case PlaceOn
      show ?thesis by (rule key) (simp add: r_def NodeSelectable PlaceOn Let_def)
    next
      case (PlaceOrOffset x)
      show ?thesis by (rule key) (simp add: r_def NodeSelectable PlaceOrOffset Let_def)
    qed
  next
    case (Iterable x)
    show ?thesis by (rule key) (simp add: r_def Iterable)
  next
    case NotSelectable
    with r r_def assms(2,3) show ?thesis by auto
  qed
  with same show ?thesis by simp
qed

lemma setToItself_leaves:
  assumes "setToItself C s = Inr t \<or> setToItself C s = Inl (e, t)"
    and "\<not> isFake s \<longrightarrow> fakeSelectionLabel s = []"
  shows "laterAvoidsEarlier C (ranges t) \<and> (\<not> isFake t \<longrightarrow> fakeSelectionLabel t = [])"
proof -
  have "setRanges C s [] (isBackward s) = Inr (s\<lparr>ranges := [], lastRangeBackward := isBackward s\<rparr>)"
    by (simp add: setRanges_eq_Inr)
  then have "setToItself C s =
      Inr ((setFakeOptions (s\<lparr>ranges := [], lastRangeBackward := isBackward s\<rparr>)
             (Some \<lparr>backward = None, fake = Some (isFake s), label = Some (fakeSelectionLabel s)\<rparr>))
           \<lparr>fired := fired s @ [''change'']\<rparr>)"
    by (simp add: setToItself_def)
  with assms show ?thesis by (auto simp: setFakeOptions_def)
qed

lemma setFocus_empty:
  "ranges s = [] \<Longrightarrow> setFocus C s itemOrPosition offset = Inl (SetFocus_no_ranges, s)"
  by (simp add: setFocus_def anchor_def)

lemma setFocus_nonempty:
  assumes "ranges s \<noteq> []"
  shows "setFocus C s itemOrPosition offset =
     (let A = (if lastRangeBackward s then end' (last (ranges s)) else start (last (ranges s)));
          F = (if lastRangeBackward s then start (last (ranges s)) else end' (last (ranges s)));
          T = createAt C itemOrPosition offset
      in if compareWith C T F = ''same'' then Inr s
         else let before = (compareWith C T A = ''before'');
                  new = (if before then \<lparr>start = T, end' = A\<rparr> else \<lparr>start = A, end' = T\<rparr>)
              in case find (isIntersecting C new) (butlast (ranges s)) of
                   Some x \<Rightarrow> Inl (Range_intersects new x, s\<lparr>ranges := butlast (ranges s)\<rparr>)
                 | None \<Rightarrow> Inr (s\<lparr>ranges := butlast (ranges s) @ [new],
                                  lastRangeBackward := before,
                                  fired := fired s @ [''change'']\<rparr>))"
  using assms
  by (simp add: setFocus_def anchor_def focus_def Let_def createFromPosition_def addRange_def
      pushRange_def Range_new_def split: option.splits)

lemma laterAvoidsEarlier_butlast:
  "laterAvoidsEarlier C rs \<Longrightarrow> laterAvoidsEarlier C (butlast rs)"
proof (cases "rs = []")
  case True
  then show ?thesis by simp
next
  case False
  assume "laterAvoidsEarlier C rs"
  then have "laterAvoidsEarlier C (butlast rs @ [last rs])" using False by simp
  then show ?thesis unfolding sorted_wrt_append by simp
qed

lemma setFocus_leaves:
  assumes "setFocus C s itemOrPosition offset = Inr t \<or> setFocus C s itemOrPosition offset = Inl (e, t)"
    and "laterAvoidsEarlier C (ranges s)"
    and "\<not> isFake s \<longrightarrow> fakeSelectionLabel s = []"
  shows "laterAvoidsEarlier C (ranges t) \<and> (\<not> isFake t \<longrightarrow> fakeSelectionLabel t = [])"
proof (cases "ranges s = []")
  case True
  with assms show ?thesis by (simp add: setFocus_empty)
next
  case False
  note bl = laterAvoidsEarlier_butlast [OF assms(2)]
  from assms(1) show ?thesis
    unfolding setFocus_nonempty [OF False] Let_def
    using assms(2,3) bl
    by (auto simp: sorted_wrt_append find_None_iff split: if_splits option.splits)
qed

lemma reachable_invariant:
  "reachable C s \<Longrightarrow>
     laterAvoidsEarlier C (ranges s) \<and> (\<not> isFake s \<longrightarrow> fakeSelectionLabel s = [])"
proof (induction rule: reachable.induct)
  case (constructed selectable' optionsOrPlaceOrOffset' options' s)
  then have "setTo C initial selectable' optionsOrPlaceOrOffset' options' = Inr s"
    by (simp add: Selection_new_def)
  from setTo_leaves [OF disjI1, OF this] show ?case by (simp add: initial_def)
next
  case (setTo_returned s selectable' optionsOrPlaceOrOffset' options' s')
  from setTo_leaves [OF disjI1, OF setTo_returned(2)] setTo_returned(3) show ?case by simp
next
  case (setTo_threw s selectable' optionsOrPlaceOrOffset' options' e s')
  from setTo_leaves [OF disjI2, OF setTo_threw(2)] setTo_threw(3) show ?case by simp
next
  case (setToItself_returned s s')
  from setToItself_leaves [OF disjI1, OF setToItself_returned(2)] setToItself_returned(3)
  show ?case by simp
next
  case (setToItself_threw s e s')
  from setToItself_leaves [OF disjI2, OF setToItself_threw(2)] setToItself_threw(3)
  show ?case by simp
next
  case (setFocus_returned s itemOrPosition offset s')
  from setFocus_leaves [OF disjI1, OF setFocus_returned(2)] setFocus_returned(3)
  show ?case by simp
next
  case (setFocus_threw s itemOrPosition offset e s')
  from setFocus_leaves [OF disjI2, OF setFocus_threw(2)] setFocus_threw(3)
  show ?case by simp
qed

subsection \<open>Getters and comparisons\<close>

lemma anchor_value:
  "anchor v = (if ranges v = [] then None
               else Some (if lastRangeBackward v then end' (last (ranges v))
                          else start (last (ranges v))))"
  by (simp add: anchor_def createFromPosition_def Let_def)

lemma focus_value:
  "focus v = (if ranges v = [] then None
              else Some (if lastRangeBackward v then start (last (ranges v))
                         else end' (last (ranges v))))"
  by (simp add: focus_def createFromPosition_def Let_def)

lemma list_all_list_ex_subset:
  "list_all (\<lambda>x. list_ex (\<lambda>y. x = y) ys) xs \<longleftrightarrow> set xs \<subseteq> set ys"
  by (auto simp: list_all_iff list_ex_iff)

lemma subset_iff_mset_eq:
  assumes "distinct xs" and "length xs = length ys"
  shows "set xs \<subseteq> set ys \<longleftrightarrow> mset xs = mset ys"
proof
  assume sub: "set xs \<subseteq> set ys"
  have "card (set ys) \<le> length ys" by (rule card_length)
  also have "\<dots> = card (set xs)" using assms by (simp add: distinct_card)
  finally have eq: "set xs = set ys" using sub by (simp add: card_seteq)
  then have "card (set ys) = length ys" using assms by (simp add: distinct_card [symmetric])
  then have "distinct ys" by (rule card_distinct)
  with eq assms(1) show "mset xs = mset ys" by (simp add: set_eq_iff_mset_eq_distinct)
next
  assume "mset xs = mset ys"
  then have "set xs = set ys" by (rule mset_eq_setD)
  then show "set xs \<subseteq> set ys" by simp
qed

lemma labelOrEmpty_Some [simp]: "labelOrEmpty (Some l) = l"
  by simp

lemma setTo_ASelection:
  assumes "laterAvoidsEarlier C (ranges s)"
    and "\<not> isFake s \<longrightarrow> fakeSelectionLabel s = []"
  shows "setTo C t (ASelection s) a opts =
           Inr (t\<lparr>ranges := ranges s, lastRangeBackward := isBackward s, isFake := isFake s,
                   fakeSelectionLabel := fakeSelectionLabel s,
                   fired := fired t @ [''change'']\<rparr>)"
proof -
  have "setRanges C t (map ARange (getRanges s)) (isBackward s) =
          Inr (t\<lparr>ranges := ranges s, lastRangeBackward := isBackward s\<rparr>)"
    unfolding setRanges_eq_Inr using assms(1) by (intro exI [of _ "ranges s"]) simp
  then show ?thesis using assms(2) by (simp add: setTo_def setFakeOptions_def)
qed

lemma isEqual_copy:
  assumes "ranges s' = ranges s" and "lastRangeBackward s' = isBackward s"
    and "isFake s' = isFake s" and "fakeSelectionLabel s' = fakeSelectionLabel s"
  shows "isBackward s' = isBackward s \<and> anchor s' = anchor s \<and> focus s' = focus s \<and>
         isEqual s' s \<and> isEqual s s'"
proof -
  have col: "isCollapsed s' = isCollapsed s"
    using assms(1) by (simp add: isCollapsed_def rangeCount_def)
  then have bw: "isBackward s' = isBackward s"
    using assms(2) by (auto simp: isBackward_def)
  have af: "anchor s' = anchor s \<and> focus s' = focus s"
  proof (cases "lastRangeBackward s = isBackward s")
    case True
    with assms(1,2) show ?thesis by (simp add: anchor_value focus_value)
  next
    case False
    then have c: "isCollapsed s" "lastRangeBackward s" "\<not> isBackward s"
      by (auto simp: isBackward_def)
    then obtain r where r: "ranges s = [r]" "start r = end' r"
      by (cases "ranges s") (auto simp: isCollapsed_def rangeCount_def Range_isCollapsed_def)
    with c assms(1,2) show ?thesis by (simp add: anchor_value focus_value)
  qed
  have "isEqual s' s" "isEqual s s'"
    using af assms(1,3,4)
    by (simp_all add: isEqual_def rangeCount_def list_all_list_ex_subset)
  with bw af show ?thesis by simp
qed

subsection \<open>The store and the values\<close>

lemma find_map: "find P (map f xs) = map_option f (find (\<lambda>x. P (f x)) xs)"
  by (induction xs) simp_all

lemma newRange_eq:
  "newRange st x y =
     (length (rangeObjects st),
      st\<lparr>positionObjects :=
            positionObjects st @
              [positionObjects st ! x, (positionObjects st @ [positionObjects st ! x]) ! y],
          rangeObjects :=
            rangeObjects st @
              [\<lparr>start = length (positionObjects st), end' = Suc (length (positionObjects st))\<rparr>]\<rparr>)"
  by (simp add: newRange_def copyPosition_def newPosition_def)

lemma rangeValue_kept:
  assumes "allocated st r"
    and "positionObjects st' = positionObjects st @ ps"
    and "rangeObjects st' = rangeObjects st @ rs"
  shows "rangeValue st' r = rangeValue st r"
  using assms by (simp add: rangeValue_def nth_append)

lemma rangeValue_arrayObjects [simp]:
  "rangeValue (st\<lparr>arrayObjects := as\<rparr>) r = rangeValue st r"
  by (simp add: rangeValue_def)

lemma rangeValue_newRange:
  assumes "x < length (positionObjects st)" and "y < length (positionObjects st)"
  shows "rangeValue (snd (newRange st x y)) (fst (newRange st x y)) =
           \<lparr>start = positionObjects st ! x, end' = positionObjects st ! y\<rparr>"
  using assms by (simp add: newRange_eq rangeValue_def nth_append)

lemma pushRangeInStore_refines:
  assumes stored: "\<forall>x \<in> set (arrayObjects st ! ranges' s). allocated st x"
    and r: "allocated st r"
    and k: "ranges' s < length (arrayObjects st)"
  shows "outcomeValue (pushRangeInStore C st s r) =
           pushRange C (selectionValue st s) (rangeValue st r)"
proof (cases "find (\<lambda>x. isIntersecting C (rangeValue st r) (rangeValue st x))
                (arrayObjects st ! ranges' s)")
  case None
  let ?st' = "snd (copyRange st r)"
  have copy: "fst (copyRange st r) = length (rangeObjects st)"
    by (simp add: copyRange_def newRange_eq)
  have ext: "positionObjects ?st' = positionObjects st @
       [positionObjects st ! start (rangeObjects st ! r),
        (positionObjects st @ [positionObjects st ! start (rangeObjects st ! r)])
          ! end' (rangeObjects st ! r)]"
    "rangeObjects ?st' = rangeObjects st @
       [\<lparr>start = length (positionObjects st), end' = Suc (length (positionObjects st))\<rparr>]"
    "arrayObjects ?st' = arrayObjects st"
    by (simp_all add: copyRange_def newRange_eq)
  let ?st'' = "?st'\<lparr>arrayObjects := (arrayObjects ?st')
                  [ranges' s := arrayObjects ?st' ! ranges' s @ [length (rangeObjects st)]]\<rparr>"
  have run: "pushRangeInStore C st s r = (?st'', Inr s)"
    using None copy by (simp add: pushRangeInStore_def case_prod_beta)
  have new: "rangeValue ?st' (length (rangeObjects st)) = rangeValue st r"
    using r by (simp add: copyRange_def newRange_eq rangeValue_def nth_append)
  have old: "\<forall>x \<in> set (arrayObjects st ! ranges' s). rangeValue ?st' x = rangeValue st x"
  proof
    fix x assume "x \<in> set (arrayObjects st ! ranges' s)"
    with stored have "allocated st x" by blast
    then show "rangeValue ?st' x = rangeValue st x"
      by (rule rangeValue_kept) (simp_all add: ext)
  qed
  have "selectionValue ?st'' s =
      (selectionValue st s)\<lparr>ranges := ranges (selectionValue st s) @ [rangeValue st r]\<rparr>"
    using k by (simp add: selectionValue_def ext old new)
  moreover have "find (isIntersecting C (rangeValue st r)) (ranges (selectionValue st s)) = None"
    using None by (simp add: selectionValue_def find_map)
  ultimately show ?thesis
    unfolding run by (simp add: pushRange_def)
next
  case (Some x)
  then have "find (isIntersecting C (rangeValue st r)) (ranges (selectionValue st s))
             = Some (rangeValue st x)"
    by (simp add: selectionValue_def find_map)
  with Some show ?thesis by (simp add: pushRangeInStore_def pushRange_def)
qed

lemma addRangeInStore_refines:
  assumes "\<forall>x \<in> set (arrayObjects st ! ranges' s). allocated st x"
    and "allocated st r"
    and "ranges' s < length (arrayObjects st)"
  shows "outcomeValue (addRangeInStore C st s (ARangeObject r) b) =
           addRange C (selectionValue st s) (ARange (rangeValue st r)) b"
proof -
  note push = pushRangeInStore_refines [OF assms, of C, symmetric]
  obtain st' res where res: "pushRangeInStore C st s r = (st', res)" by (cases "pushRangeInStore C st s r")
  show ?thesis
  proof (cases res)
    case (Inl es)
    obtain e s' where "es = (e, s')" by (cases es)
    with Inl res push show ?thesis
      by (simp add: addRangeInStore_def addRange_def andThen_def split: sum.splits)
  next
    case (Inr s')
    with res push show ?thesis
      by (auto simp: addRangeInStore_def addRange_def andThen_def selectionValue_def
          split: sum.splits)
  qed
qed

lemma outcomeValue_fire:
  "outcomeValue
     (case out of
        (st6, Inl e) \<Rightarrow> (st6, Inl e)
      | (st6, Inr s') \<Rightarrow> (st6, Inr (s'\<lparr>fired' := fired' s' @ [''change'']\<rparr>))) =
   andThen (outcomeValue out) (\<lambda>v. Inr (v\<lparr>fired := fired v @ [''change'']\<rparr>))"
proof -
  obtain st6 res where out: "out = (st6, res)" by (cases out)
  show ?thesis
  proof (cases res)
    case (Inl es)
    obtain e s' where "es = (e, s')" by (cases es)
    with Inl out show ?thesis by simp
  next
    case (Inr s')
    with out show ?thesis by (simp add: selectionValue_def)
  qed
qed

lemma setFocusInStore_refines:
  assumes wf: "\<forall>r \<in> set (arrayObjects st ! ranges' s). allocated st r"
    and ip: "\<forall>a. itemOrPosition = APosition a \<longrightarrow> a < length (positionObjects st)"
    and k: "ranges' s < length (arrayObjects st)"
  shows "outcomeValue (setFocusInStore C st s itemOrPosition offset) =
           setFocus C (selectionValue st s) (itemOrPositionValue st itemOrPosition) offset"
proof (cases "arrayObjects st ! ranges' s = []")
  case True
  then show ?thesis
    by (simp add: setFocusInStore_def anchorInStore_def setFocus_def anchor_def selectionValue_def)
next
  case ne: False
  let ?P = "positionObjects st" and ?R = "rangeObjects st" and ?A = "arrayObjects st"
  let ?stored = "?A ! ranges' s"
  let ?last = "?R ! last ?stored"
  let ?An = "if lastRangeBackward' s then end' ?last else start ?last"
  let ?Fo = "if lastRangeBackward' s then start ?last else end' ?last"
  let ?T = "createAt C (itemOrPositionValue st itemOrPosition) offset"
  let ?a = "?P ! ?An" and ?f = "?P ! ?Fo"
  let ?v = "selectionValue st s"
  from ne have "last ?stored \<in> set ?stored" by simp
  with wf have wf_last: "allocated st (last ?stored)" by blast
  then have lt: "?An < length ?P" "?Fo < length ?P" by simp_all
  have ipv: "itemOrPositionValue (st\<lparr>positionObjects := ?P @ ps\<rparr>) itemOrPosition
             = itemOrPositionValue st itemOrPosition" for ps
    using ip by (cases itemOrPosition) (simp_all add: itemOrPositionValue_def nth_append)
  have kept: "selectionValue (st\<lparr>positionObjects := ?P @ ps\<rparr>) s = ?v" for ps
    using wf by (simp add: selectionValue_def rangeValue_def nth_append)
  have af: "anchor ?v = Some ?a" "focus ?v = Some ?f"
    using ne by (simp_all add: anchor_value focus_value selectionValue_def last_map rangeValue_def)
  let ?st3 = "st\<lparr>positionObjects := ?P @ [?a, ?T, ?f]\<rparr>"
  let ?st4 = "st\<lparr>positionObjects := ?P @ [?a, ?T, ?f, ?a]\<rparr>"
  let ?popped = "st\<lparr>positionObjects := ?P @ [?a, ?T, ?f, ?a],
                     arrayObjects := ?A[ranges' s := butlast ?stored]\<rparr>"
  let ?nf = "Suc (length ?P)" and ?an = "Suc (Suc (Suc (length ?P)))"
  have run: "setFocusInStore C st s itemOrPosition offset =
      (if compareWith C ?T ?f = ''same'' then (?st3, Inr s)
       else case (if compareWith C ?T ?a = ''before''
                  then addRangeInStore C (snd (newRange ?popped ?nf ?an)) s
                         (ARangeObject (length ?R)) True
                  else addRangeInStore C (snd (newRange ?popped ?an ?nf)) s
                         (ARangeObject (length ?R)) False)
            of (st6, Inl e) \<Rightarrow> (st6, Inl e)
             | (st6, Inr s') \<Rightarrow> (st6, Inr (s'\<lparr>fired' := fired' s' @ [''change'']\<rparr>)))"
    using ne lt
    by (simp add: setFocusInStore_def anchorInStore_def focusInStore_def createAtInStore_def
        copyPosition_def newPosition_def Let_def ipv nth_append newRange_eq)
  show ?thesis
  proof (cases "compareWith C ?T ?f = ''same''")
    case True
    with af have "setFocus C ?v (itemOrPositionValue st itemOrPosition) offset = Inr ?v"
      by (simp add: setFocus_def Let_def)
    with True show ?thesis unfolding run by (simp add: kept)
  next
    case False
    let ?pv = "?v\<lparr>ranges := butlast (ranges ?v)\<rparr>"
    have value_side: "setFocus C ?v (itemOrPositionValue st itemOrPosition) offset =
        andThen (if compareWith C ?T ?a = ''before''
                 then addRange C ?pv (ARange \<lparr>start = ?T, end' = ?a\<rparr>) True
                 else addRange C ?pv (ARange \<lparr>start = ?a, end' = ?T\<rparr>) False)
          (\<lambda>v. Inr (v\<lparr>fired := fired v @ [''change'']\<rparr>))"
      using af False by (simp add: setFocus_def Let_def Range_new_def createFromPosition_def)
    have store_side: "outcomeValue (addRangeInStore C (snd (newRange ?popped x y)) s
                         (ARangeObject (length ?R)) b) =
        addRange C ?pv (ARange \<lparr>start = positionObjects ?popped ! x,
                                 end' = positionObjects ?popped ! y\<rparr>) b"
      if x: "x < length (positionObjects ?popped)" and y: "y < length (positionObjects ?popped)"
      for x y b
    proof -
      let ?st5 = "snd (newRange ?popped x y)"
      have ext: "positionObjects ?st5 = ?P @ ([?a, ?T, ?f, ?a] @
                   [positionObjects ?popped ! x,
                    (positionObjects ?popped @ [positionObjects ?popped ! x]) ! y])"
        "rangeObjects ?st5 = ?R @
           [\<lparr>start = length (positionObjects ?popped),
             end' = Suc (length (positionObjects ?popped))\<rparr>]"
        "arrayObjects ?st5 = ?A[ranges' s := butlast ?stored]"
        by (simp_all add: newRange_eq)
      have arr: "arrayObjects ?st5 ! ranges' s = butlast ?stored"
        using k by (simp add: ext)
      have old_rv: "rangeValue ?st5 r = rangeValue st r" if "r \<in> set (butlast ?stored)" for r
      proof -
        from that have "r \<in> set ?stored" by (rule in_set_butlastD)
        with wf have "allocated st r" by blast
        then show ?thesis using ext(1,2) by (rule rangeValue_kept)
      qed
      have old_al: "allocated ?st5 r" if "r \<in> set (butlast ?stored)" for r
      proof -
        from that have "r \<in> set ?stored" by (rule in_set_butlastD)
        with wf have "allocated st r" by blast
        then show ?thesis by (simp add: ext nth_append)
      qed
      have new: "allocated ?st5 (length ?R)"
        "rangeValue ?st5 (length ?R) =
           \<lparr>start = positionObjects ?popped ! x, end' = positionObjects ?popped ! y\<rparr>"
        using x y rangeValue_newRange [OF x y]
        by (simp_all add: newRange_eq nth_append)
      have "map (rangeValue ?st5) (butlast ?stored) = map (rangeValue st) (butlast ?stored)"
        by (rule map_cong [OF refl]) (rule old_rv)
      then have "selectionValue ?st5 s = ?pv"
        by (simp add: selectionValue_def arr map_butlast)
      moreover have "ranges' s < length (arrayObjects ?st5)" using k by (simp add: ext)
      moreover have "\<forall>r \<in> set (arrayObjects ?st5 ! ranges' s). allocated ?st5 r"
        unfolding arr using old_al by blast
      ultimately show ?thesis
        using addRangeInStore_refines [of ?st5 s "length ?R" C b] new by simp
    qed
    have nf: "positionObjects ?popped ! ?nf = ?T" and an: "positionObjects ?popped ! ?an = ?a"
      by (simp_all add: nth_append)
    have inside: "?nf < length (positionObjects ?popped)" "?an < length (positionObjects ?popped)"
      by simp_all
    have backward: "outcomeValue (addRangeInStore C (snd (newRange ?popped ?nf ?an)) s
                         (ARangeObject (length ?R)) True) =
        addRange C ?pv (ARange \<lparr>start = ?T, end' = ?a\<rparr>) True"
      using store_side [OF inside(1) inside(2), of True] unfolding nf an .
    have forward: "outcomeValue (addRangeInStore C (snd (newRange ?popped ?an ?nf)) s
                         (ARangeObject (length ?R)) False) =
        addRange C ?pv (ARange \<lparr>start = ?a, end' = ?T\<rparr>) False"
      using store_side [OF inside(2) inside(1), of False] unfolding nf an .
    show ?thesis
    proof (cases "compareWith C ?T ?a = ''before''")
      case True
      show ?thesis
        unfolding run value_side
        by (simp only: False True if_False if_True simp_thms outcomeValue_fire backward)
    next
      case before: False
      show ?thesis
        unfolding run value_side
        by (simp only: False before if_False if_True simp_thms outcomeValue_fire forward)
    qed
  qed
qed

subsection \<open>The sample selections, constructed\<close>

lemmas run_defs =
  Selection_new_def setTo_def setRanges_def addRange_def pushRange_def andThen_def
  setFakeOptions_def initial_def linear_def createFromRange_def Range_new_def
  createFromPosition_def

lemma twoRanges_constructed:
  "Selection_new linear (Iterable [ARange \<lparr>start = 0, end' = 2\<rparr>, ARange \<lparr>start = 3, end' = 5\<rparr>])
     Undefined None = Inr twoRanges"
  by (simp add: run_defs twoRanges_def)

lemma threeRanges_constructed:
  "Selection_new linear
     (Iterable [ARange \<lparr>start = 0, end' = 2\<rparr>, ARange \<lparr>start = 3, end' = 5\<rparr>,
                ARange \<lparr>start = 6, end' = 8\<rparr>])
     Undefined None = Inr threeRanges"
  by (simp add: run_defs threeRanges_def)

lemma threeRangesSwapped_constructed:
  "Selection_new linear
     (Iterable [ARange \<lparr>start = 3, end' = 5\<rparr>, ARange \<lparr>start = 0, end' = 2\<rparr>,
                ARange \<lparr>start = 6, end' = 8\<rparr>])
     Undefined None = Inr threeRangesSwapped"
  by (simp add: run_defs threeRangesSwapped_def)

lemma oneRange_constructed:
  "Selection_new linear (RangeSelectable \<lparr>start = 2, end' = 4\<rparr>) Undefined None = Inr oneRange"
  by (simp add: run_defs oneRange_def)

lemma fakeBackward_constructed:
  "Selection_new linear (RangeSelectable \<lparr>start = 0, end' = 2\<rparr>)
     (Options \<lparr>backward = Some True, fake = Some True, label = Some ''widget''\<rparr>) None
   = Inr fakeBackward"
  by (simp add: run_defs fakeBackward_def)

lemma plainBackward_constructed:
  "Selection_new linear (RangeSelectable \<lparr>start = 0, end' = 2\<rparr>)
     (Options \<lparr>backward = Some True, fake = None, label = Some ''dropped''\<rparr>) None
   = Inr plainBackward"
  by (simp add: run_defs plainBackward_def)

lemma collapsedOneOneTwo_constructed:
  "Selection_new linear
     (Iterable [ARange \<lparr>start = 1, end' = 1\<rparr>, ARange \<lparr>start = 1, end' = 1\<rparr>,
                ARange \<lparr>start = 2, end' = 2\<rparr>])
     Undefined None = Inr collapsedOneOneTwo"
  by (simp add: run_defs collapsedOneOneTwo_def)

lemma collapsedOneTwoTwo_constructed:
  "Selection_new linear
     (Iterable [ARange \<lparr>start = 1, end' = 1\<rparr>, ARange \<lparr>start = 2, end' = 2\<rparr>,
                ARange \<lparr>start = 2, end' = 2\<rparr>])
     Undefined None = Inr collapsedOneTwoTwo"
  by (simp add: run_defs collapsedOneTwoTwo_def)

lemma emptyForward_constructed:
  "Selection_new linear Null Undefined None = Inr emptyForward"
  by (simp add: run_defs emptyForward_def)

lemma emptyBackward_constructed:
  "Selection_new linear (Iterable [])
     (Options \<lparr>backward = Some True, fake = None, label = None\<rparr>) None = Inr emptyBackward"
  by (simp add: run_defs emptyBackward_def)

lemma linear_symmetric: "\<forall>a b. isIntersecting linear a b = isIntersecting linear b a"
  by (auto simp: linear_def)

section \<open>The properties claimed\<close>

text \<open>
  Claim C1. In every state a selection can reach, through its constructor, \<open>_setTo\<close>
  and \<open>_setFocus\<close>, whether the calls returned or threw, no stored range intersects a
  range stored before it; and when \<open>Range.isIntersecting\<close> is symmetric, as an
  intersection test is, no two stored ranges at different indices intersect, in
  either order.
\<close>

theorem stored_ranges_never_intersect:
  assumes "reachable C s"
  shows "(\<forall>i j. i < j \<longrightarrow> j < length (ranges s) \<longrightarrow>
            \<not> isIntersecting C (ranges s ! j) (ranges s ! i)) \<and>
         ((\<forall>a b. isIntersecting C a b = isIntersecting C b a) \<longrightarrow>
            (\<forall>i j. i < length (ranges s) \<longrightarrow> j < length (ranges s) \<longrightarrow> i \<noteq> j \<longrightarrow>
               \<not> isIntersecting C (ranges s ! i) (ranges s ! j)))"
proof -
  from reachable_invariant [OF assms] have "laterAvoidsEarlier C (ranges s)" by simp
  then have ordered: "\<forall>i j. i < j \<longrightarrow> j < length (ranges s) \<longrightarrow>
      \<not> isIntersecting C (ranges s ! j) (ranges s ! i)"
    by (simp add: sorted_wrt_iff_nth_less)
  have "\<not> isIntersecting C (ranges s ! i) (ranges s ! j)"
    if sym: "\<forall>a b. isIntersecting C a b = isIntersecting C b a"
      and ij: "i < length (ranges s)" "j < length (ranges s)" "i \<noteq> j" for i j
  proof (cases "i < j")
    case True
    with ordered ij have "\<not> isIntersecting C (ranges s ! j) (ranges s ! i)" by blast
    with sym show ?thesis by blast
  next
    case False
    with ij have "j < i" by simp
    with ordered ij show ?thesis by blast
  qed
  with ordered show ?thesis by blast
qed

text \<open>
  The two ranges \<open>0..2\<close> and \<open>3..5\<close>, set by the constructor from an iterable, do not
  intersect in either order.
\<close>

theorem stored_ranges_never_intersect_witness:
  "reachable linear twoRanges \<and>
   \<not> isIntersecting linear (ranges twoRanges ! 1) (ranges twoRanges ! 0) \<and>
   \<not> isIntersecting linear (ranges twoRanges ! 0) (ranges twoRanges ! 1)"
proof -
  have r: "reachable linear twoRanges"
    by (rule constructed [OF twoRanges_constructed])
  note inv = stored_ranges_never_intersect [OF r]
  from inv have "\<forall>i j. i < j \<longrightarrow> j < length (ranges twoRanges) \<longrightarrow>
      \<not> isIntersecting linear (ranges twoRanges ! j) (ranges twoRanges ! i)"
    by blast
  from this [rule_format, of 0 1]
  have "\<not> isIntersecting linear (ranges twoRanges ! 1) (ranges twoRanges ! 0)"
    by (simp add: twoRanges_def)
  moreover from inv linear_symmetric
  have "\<forall>i j. i < length (ranges twoRanges) \<longrightarrow> j < length (ranges twoRanges) \<longrightarrow> i \<noteq> j \<longrightarrow>
          \<not> isIntersecting linear (ranges twoRanges ! i) (ranges twoRanges ! j)"
    by blast
  from this [rule_format, of 0 1]
  have "\<not> isIntersecting linear (ranges twoRanges ! 0) (ranges twoRanges ! 1)"
    by (simp add: twoRanges_def)
  ultimately show ?thesis using r by simp
qed

text \<open>
  Claim C2. When the range given to \<open>_addRange\<close> intersects a stored range, \<open>_addRange\<close>
  (and \<open>_pushRange\<close>, which it calls) throws \<open>view-selection-range-intersects\<close> with the
  given range as \<open>addedRange\<close> and, as \<open>intersectingRange\<close>, the first stored range it
  intersects; the selection thrown with the error is the selection before the call,
  so neither the stored ranges nor the direction flag have changed.
\<close>

theorem addRange_intersecting_throws:
  assumes "\<exists>x \<in> set (ranges s). isIntersecting C r x"
  shows "\<exists>i < length (ranges s).
           isIntersecting C r (ranges s ! i) \<and>
           (\<forall>j < i. \<not> isIntersecting C r (ranges s ! j)) \<and>
           addRange C s (ARange r) b = Inl (Range_intersects r (ranges s ! i), s) \<and>
           pushRange C s r = Inl (Range_intersects r (ranges s ! i), s)"
proof -
  from assms have "find (isIntersecting C r) (ranges s) \<noteq> None"
    by (auto simp: find_None_iff)
  then obtain x where x: "find (isIntersecting C r) (ranges s) = Some x" by blast
  then obtain i where i: "i < length (ranges s)" "isIntersecting C r (ranges s ! i)"
    "x = ranges s ! i" "\<forall>j < i. \<not> isIntersecting C r (ranges s ! j)"
    unfolding find_Some_iff by blast
  from x i(3) have "pushRange C s r = Inl (Range_intersects r (ranges s ! i), s)"
    by (simp add: pushRange_eq_Inl)
  moreover from this have "addRange C s (ARange r) b = Inl (Range_intersects r (ranges s ! i), s)"
    by (simp add: addRange_def)
  ultimately show ?thesis using i by blast
qed

text \<open>
  \<open>1..4\<close> intersects both stored ranges of \<open>twoRanges\<close>; the error names the first,
  \<open>0..2\<close>, and the selection is unchanged although the call asked for a backward range.
\<close>

theorem addRange_intersecting_throws_witness:
  "isIntersecting linear \<lparr>start = 1, end' = 4\<rparr> (ranges twoRanges ! 1) \<and>
   addRange linear twoRanges (ARange \<lparr>start = 1, end' = 4\<rparr>) True =
     Inl (Range_intersects \<lparr>start = 1, end' = 4\<rparr> \<lparr>start = 0, end' = 2\<rparr>, twoRanges)"
proof -
  let ?r = "\<lparr>start = 1, end' = 4\<rparr> :: nat Range"
  have hyp: "\<exists>x \<in> set (ranges twoRanges). isIntersecting linear ?r x"
    by (simp add: twoRanges_def linear_def)
  from addRange_intersecting_throws [OF hyp, of True]
  obtain i where i: "i < length (ranges twoRanges)"
    "\<forall>j < i. \<not> isIntersecting linear ?r (ranges twoRanges ! j)"
    "addRange linear twoRanges (ARange ?r) True =
       Inl (Range_intersects ?r (ranges twoRanges ! i), twoRanges)"
    by blast
  have first: "isIntersecting linear ?r (ranges twoRanges ! 0)"
    by (simp add: twoRanges_def linear_def)
  with i(2) have "i = 0" by (cases i) auto
  with i(3) have "addRange linear twoRanges (ARange ?r) True =
       Inl (Range_intersects ?r \<lparr>start = 0, end' = 2\<rparr>, twoRanges)"
    by (simp add: twoRanges_def)
  moreover have "isIntersecting linear ?r (ranges twoRanges ! 1)"
    by (simp add: twoRanges_def linear_def)
  ultimately show ?thesis by simp
qed

text \<open>
  Claim C3. With no range stored, \<open>anchor\<close> and \<open>focus\<close> are both \<open>null\<close>. Otherwise,
  on the range added last, \<open>anchor\<close> has the value of its end when \<open>_lastRangeBackward\<close>
  is set and of its start when it is not, and \<open>focus\<close> the value of the other end.
  What they return is a new position object: its address is that of no position of a
  stored range, the stored positions keep their values, and writing to the new object
  changes no stored range. The allocated positions of the stored ranges are assumed
  to be on the heap. The last two conjuncts state the values for the getters on
  selections of values, which the other properties use.
\<close>

theorem anchor_focus_copies:
  assumes "\<forall>r \<in> set (ranges s). start r < length h \<and> end' r < length h"
  shows "(ranges s = [] \<longrightarrow> anchorObject h s = (None, h) \<and> focusObject h s = (None, h)) \<and>
    (ranges s \<noteq> [] \<longrightarrow>
       (\<exists>a h'. anchorObject h s = (Some a, h') \<and>
          h' ! a = h ! (if lastRangeBackward s then end' (last (ranges s))
                         else start (last (ranges s))) \<and>
          (\<forall>r \<in> set (ranges s). a \<noteq> start r \<and> a \<noteq> end' r) \<and>
          valuesOf h' s = valuesOf h s \<and>
          (\<forall>x. valuesOf (h'[a := x]) s = valuesOf h s) \<and>
          anchor (valuesOf h s) = Some (h' ! a)) \<and>
       (\<exists>f h'. focusObject h s = (Some f, h') \<and>
          h' ! f = h ! (if lastRangeBackward s then start (last (ranges s))
                         else end' (last (ranges s))) \<and>
          (\<forall>r \<in> set (ranges s). f \<noteq> start r \<and> f \<noteq> end' r) \<and>
          valuesOf h' s = valuesOf h s \<and>
          (\<forall>x. valuesOf (h'[f := x]) s = valuesOf h s) \<and>
          focus (valuesOf h s) = Some (h' ! f))) \<and>
    anchor v = (if ranges v = [] then None
                else Some (if lastRangeBackward v then end' (last (ranges v))
                           else start (last (ranges v)))) \<and>
    focus v = (if ranges v = [] then None
               else Some (if lastRangeBackward v then start (last (ranges v))
                          else end' (last (ranges v))))"
proof -
  have fresh: "\<forall>r \<in> set (ranges s). length h \<noteq> start r \<and> length h \<noteq> end' r"
    using assms by auto
  have same: "valuesOf (h @ [x]) s = valuesOf h s" for x
    using assms by (simp add: valuesOf_def nth_append)
  have empty: "ranges s = [] \<longrightarrow> anchorObject h s = (None, h) \<and> focusObject h s = (None, h)"
    by (simp add: anchorObject_def focusObject_def)
  note getters = anchor_value focus_value
  have nonempty: "(\<exists>a h'. anchorObject h s = (Some a, h') \<and>
          h' ! a = h ! (if lastRangeBackward s then end' (last (ranges s))
                         else start (last (ranges s))) \<and>
          (\<forall>r \<in> set (ranges s). a \<noteq> start r \<and> a \<noteq> end' r) \<and>
          valuesOf h' s = valuesOf h s \<and>
          (\<forall>x. valuesOf (h'[a := x]) s = valuesOf h s) \<and>
          anchor (valuesOf h s) = Some (h' ! a)) \<and>
       (\<exists>f h'. focusObject h s = (Some f, h') \<and>
          h' ! f = h ! (if lastRangeBackward s then start (last (ranges s))
                         else end' (last (ranges s))) \<and>
          (\<forall>r \<in> set (ranges s). f \<noteq> start r \<and> f \<noteq> end' r) \<and>
          valuesOf h' s = valuesOf h s \<and>
          (\<forall>x. valuesOf (h'[f := x]) s = valuesOf h s) \<and>
          focus (valuesOf h s) = Some (h' ! f))" if ne: "ranges s \<noteq> []"
  proof -
    have vals: "ranges (valuesOf h s) \<noteq> []"
      "last (ranges (valuesOf h s)) =
         \<lparr>start = h ! start (last (ranges s)), end' = h ! end' (last (ranges s))\<rparr>"
      "lastRangeBackward (valuesOf h s) = lastRangeBackward s"
      using ne by (simp_all add: valuesOf_def last_map)
    show ?thesis
      using ne fresh same vals
      by (simp add: anchorObject_def focusObject_def Position_copy_def Let_def getters)
  qed
  from empty nonempty anchor_value [of v] focus_value [of v] show ?thesis by blast
qed

text \<open>
  A heap with the positions \<open>10\<close> and \<open>20\<close> at the addresses \<open>0\<close> and \<open>1\<close>, and
  the backward range from \<open>0\<close> to \<open>1\<close>: the anchor is a new object at the address \<open>2\<close>
  with the value \<open>20\<close>, the focus one with the value \<open>10\<close>.
\<close>

theorem anchor_focus_copies_witness:
  "anchorObject [10, 20 :: nat] storedBackward = (Some 2, [10, 20, 20]) \<and>
   focusObject [10, 20 :: nat] storedBackward = (Some 2, [10, 20, 10]) \<and>
   anchor (valuesOf [10, 20 :: nat] storedBackward) = Some 20 \<and>
   focus (valuesOf [10, 20 :: nat] storedBackward) = Some 10 \<and>
   anchorObject [10, 20 :: nat] (storedBackward\<lparr>ranges := []\<rparr>) = (None, [10, 20])"
proof -
  have hyp: "\<forall>r \<in> set (ranges storedBackward).
      start r < length [10, 20 :: nat] \<and> end' r < length [10, 20 :: nat]"
    by (simp add: storedBackward_def)
  have hyp': "\<forall>r \<in> set (ranges (storedBackward\<lparr>ranges := []\<rparr>)).
      start r < length [10, 20 :: nat] \<and> end' r < length [10, 20 :: nat]"
    by simp
  from anchor_focus_copies [OF hyp, of "valuesOf [10, 20 :: nat] storedBackward"]
  have "anchor (valuesOf [10, 20 :: nat] storedBackward) = Some 20 \<and>
        focus (valuesOf [10, 20 :: nat] storedBackward) = Some 10"
    by (simp add: storedBackward_def valuesOf_def)
  moreover from anchor_focus_copies [OF hyp', of "valuesOf [10, 20 :: nat] storedBackward"]
  have "anchorObject [10, 20 :: nat] (storedBackward\<lparr>ranges := []\<rparr>) = (None, [10, 20])"
    by simp
  moreover have "anchorObject [10, 20 :: nat] storedBackward = (Some 2, [10, 20, 20])"
    "focusObject [10, 20 :: nat] storedBackward = (Some 2, [10, 20, 10])"
    by (simp_all add: storedBackward_def anchorObject_def focusObject_def Position_copy_def)
  ultimately show ?thesis by simp
qed

text \<open>
  Against claim C4 as it is stated, with the ranges compared as multisets. A collapsed
  range intersects nothing, itself included, so the constructor accepts the collapsed
  ranges at \<open>1, 1, 2\<close> and at \<open>1, 2, 2\<close>. The two selections have the same number of
  ranges, the same anchor and focus, and every range of the first is a range of the
  second: \<open>isEqual\<close> is true of them, and their ranges are not the same multiset.
\<close>

theorem isEqual_multiset_counterexample:
  "Selection_new linear
     (Iterable [ARange \<lparr>start = 1, end' = 1\<rparr>, ARange \<lparr>start = 1, end' = 1\<rparr>,
                ARange \<lparr>start = 2, end' = 2\<rparr>])
     Undefined None = Inr collapsedOneOneTwo \<and>
   Selection_new linear
     (Iterable [ARange \<lparr>start = 1, end' = 1\<rparr>, ARange \<lparr>start = 2, end' = 2\<rparr>,
                ARange \<lparr>start = 2, end' = 2\<rparr>])
     Undefined None = Inr collapsedOneTwoTwo \<and>
   isEqual collapsedOneOneTwo collapsedOneTwoTwo \<and>
   \<not> (anchor collapsedOneOneTwo = anchor collapsedOneTwoTwo \<and>
      focus collapsedOneOneTwo = focus collapsedOneTwoTwo \<and>
      mset (ranges collapsedOneOneTwo) = mset (ranges collapsedOneTwoTwo))"
proof -
  have "isEqual collapsedOneOneTwo collapsedOneTwoTwo"
    by (simp add: isEqual_def rangeCount_def anchor_def focus_def collapsedOneOneTwo_def
        collapsedOneTwoTwo_def)
  moreover have "mset (ranges collapsedOneOneTwo) \<noteq> mset (ranges collapsedOneTwoTwo)"
  proof
    assume "mset (ranges collapsedOneOneTwo) = mset (ranges collapsedOneTwoTwo)"
    then have "count (mset (ranges collapsedOneOneTwo)) \<lparr>start = 1, end' = 1\<rparr> =
               count (mset (ranges collapsedOneTwoTwo)) \<lparr>start = 1, end' = 1\<rparr>"
      by simp
    then show False by (simp add: collapsedOneOneTwo_def collapsedOneTwoTwo_def)
  qed
  ultimately show ?thesis
    using collapsedOneOneTwo_constructed collapsedOneTwoTwo_constructed by simp
qed

text \<open>
  Claim C4, amended. \<open>isEqual\<close> is false when the fake flags differ, or both selections
  are fake and their labels differ, or the numbers of ranges differ; it is true when
  both have no range; otherwise it is true exactly when the anchors are equal, the
  foci are equal and every stored range of the first selection is equal to some
  stored range of the second. When the stored ranges of the first are pairwise
  different (and the numbers of ranges agree) that last condition is the equality of
  the two multisets of ranges.
\<close>

theorem isEqual_compares:
  "isEqual a b =
     (if isFake a \<noteq> isFake b then False
      else if isFake a \<and> isFake b \<and> fakeSelectionLabel a \<noteq> fakeSelectionLabel b then False
      else if length (ranges a) \<noteq> length (ranges b) then False
      else if ranges a = [] \<and> ranges b = [] then True
      else anchor a = anchor b \<and> focus a = focus b \<and> set (ranges a) \<subseteq> set (ranges b)) \<and>
   (distinct (ranges a) \<longrightarrow> length (ranges a) = length (ranges b) \<longrightarrow>
      (set (ranges a) \<subseteq> set (ranges b)) = (mset (ranges a) = mset (ranges b)))"
proof -
  have "isEqual a b =
     (if isFake a \<noteq> isFake b then False
      else if isFake a \<and> isFake b \<and> fakeSelectionLabel a \<noteq> fakeSelectionLabel b then False
      else if length (ranges a) \<noteq> length (ranges b) then False
      else if ranges a = [] \<and> ranges b = [] then True
      else anchor a = anchor b \<and> focus a = focus b \<and> set (ranges a) \<subseteq> set (ranges b))"
    unfolding isEqual_def rangeCount_def list_all_list_ex_subset by auto
  then show ?thesis using subset_iff_mset_eq [of "ranges a" "ranges b"] by blast
qed

text \<open>
  Three ranges stored in two orders with the same range last: the selections are
  equal and their ranges are the same multiset. A selection of three ranges and one of
  two are not equal.
\<close>

theorem isEqual_compares_witness:
  "distinct (ranges threeRanges) \<and> length (ranges threeRanges) = length (ranges threeRangesSwapped) \<and>
   isEqual threeRanges threeRangesSwapped \<and>
   mset (ranges threeRanges) = mset (ranges threeRangesSwapped) \<and>
   \<not> isEqual threeRanges twoRanges"
proof -
  have d: "distinct (ranges threeRanges)"
    "length (ranges threeRanges) = length (ranges threeRangesSwapped)"
    by (simp_all add: threeRanges_def threeRangesSwapped_def)
  have sub: "set (ranges threeRanges) \<subseteq> set (ranges threeRangesSwapped)"
    by (simp add: threeRanges_def threeRangesSwapped_def)
  from isEqual_compares [of threeRanges threeRangesSwapped] d sub
  have "mset (ranges threeRanges) = mset (ranges threeRangesSwapped)" by blast
  moreover from isEqual_compares [of threeRanges threeRangesSwapped] sub
  have "isEqual threeRanges threeRangesSwapped"
    by (simp add: threeRanges_def threeRangesSwapped_def anchor_def focus_def)
  moreover from isEqual_compares [of threeRanges twoRanges]
  have "\<not> isEqual threeRanges twoRanges"
    by (simp add: threeRanges_def twoRanges_def)
  ultimately show ?thesis using d by simp
qed

text \<open>
  Claim C5. Let a selection object have a range, all its ranges being in the store, and
  let \<open>_setFocus\<close> be given a target that \<open>compareWith\<close> finds \<open>'same'\<close> as the focus.
  Then \<open>_setFocus\<close> returns, and it returns the selection object as it was: the same
  array address, the same direction flag, the same log of fired events, so no \<open>change\<close>
  was fired. In the store every array is as before (\<open>_ranges\<close> holds the same range
  objects in the same order) and every range object is as before (no range was
  allocated, and each has the same two position objects); the positions of the store
  are there unchanged, followed by the copies that the getters and \<open>Position.createAt\<close>
  allocated. On values, the selection the object stands for is returned unchanged, and
  so is any selection of values under the same conditions.
\<close>

theorem setFocus_same_is_noop:
  assumes "\<forall>r \<in> set (arrayObjects st ! ranges' s). allocated st r"
    and "\<forall>a. itemOrPosition = APosition a \<longrightarrow> a < length (positionObjects st)"
    and "ranges (selectionValue st s) \<noteq> []"
    and "focus (selectionValue st s) = Some f"
    and "compareWith C (createAt C (itemOrPositionValue st itemOrPosition) offset) f = ''same''"
  shows "(\<exists>st'. setFocusInStore C st s itemOrPosition offset = (st', Inr s) \<and>
               arrayObjects st' = arrayObjects st \<and>
               rangeObjects st' = rangeObjects st \<and>
               (\<exists>temporaries. positionObjects st' = positionObjects st @ temporaries) \<and>
               selectionValue st' s = selectionValue st s) \<and>
         setFocus C (selectionValue st s) (itemOrPositionValue st itemOrPosition) offset =
           Inr (selectionValue st s) \<and>
         (ranges v \<noteq> [] \<longrightarrow> focus v = Some g \<longrightarrow>
            compareWith C (createAt C target offset') g = ''same'' \<longrightarrow>
            setFocus C v target offset' = Inr v)"
proof -
  let ?stored = "arrayObjects st ! ranges' s"
  from assms(3) have ne: "?stored \<noteq> []" by (simp add: selectionValue_def)
  then have last_in: "last ?stored \<in> set ?stored" by simp
  with assms(1) have wf_last: "last ?stored < length (rangeObjects st)"
    "start (rangeObjects st ! last ?stored) < length (positionObjects st)"
    "end' (rangeObjects st ! last ?stored) < length (positionObjects st)"
    by blast+
  let ?F = "if lastRangeBackward' s then start (rangeObjects st ! last ?stored)
            else end' (rangeObjects st ! last ?stored)"
  have f: "f = positionObjects st ! ?F"
    using assms(4) ne
    by (simp add: focus_def selectionValue_def createFromPosition_def last_map rangeValue_def
        Let_def split: if_splits)
  have ipv: "itemOrPositionValue (st\<lparr>positionObjects := positionObjects st @ ps\<rparr>) itemOrPosition
             = itemOrPositionValue st itemOrPosition" for ps
    using assms(2) by (cases itemOrPosition) (simp_all add: itemOrPositionValue_def nth_append)
  have Flt: "?F < length (positionObjects st)" using wf_last by simp
  have run: "setFocusInStore C st s itemOrPosition offset =
      (st\<lparr>positionObjects := positionObjects st @
            [positionObjects st ! (if lastRangeBackward' s then end' (rangeObjects st ! last ?stored)
                                   else start (rangeObjects st ! last ?stored)),
             createAt C (itemOrPositionValue st itemOrPosition) offset,
             positionObjects st ! ?F]\<rparr>, Inr s)"
    using ne assms(5) Flt wf_last
    by (simp add: setFocusInStore_def anchorInStore_def focusInStore_def createAtInStore_def
        copyPosition_def newPosition_def Let_def ipv f nth_append)
  have vals: "selectionValue (st\<lparr>positionObjects := positionObjects st @ ps\<rparr>) s
              = selectionValue st s" for ps
    using assms(1) by (simp add: selectionValue_def rangeValue_def nth_append)
  have value_level: "setFocus C (selectionValue st s) (itemOrPositionValue st itemOrPosition) offset =
           Inr (selectionValue st s)"
    using assms(3,4,5) by (simp add: setFocus_def anchor_def focus_def Let_def)
  have on_values: "ranges v \<noteq> [] \<longrightarrow> focus v = Some g \<longrightarrow>
            compareWith C (createAt C target offset') g = ''same'' \<longrightarrow>
            setFocus C v target offset' = Inr v"
    by (simp add: setFocus_def anchor_def focus_def Let_def)
  show ?thesis unfolding run using vals value_level on_values by simp
qed

text \<open>
  The store holds the ranges \<open>0..2\<close> and \<open>3..5\<close> of \<open>twoRanges\<close>; the position at the
  address \<open>3\<close> has the value \<open>5\<close>, the focus. Setting the focus to it allocates three
  positions (the anchor read for the test, the new focus, the focus read for the
  comparison) and changes nothing else.
\<close>

theorem setFocus_same_is_noop_witness:
  "selectionValue twoRangesStore twoRangesObject = twoRanges \<and>
   focus twoRanges = Some 5 \<and>
   compareWith linear (createAt linear (APosition 5) None) 5 = ''same'' \<and>
   setFocusInStore linear twoRangesStore twoRangesObject (APosition 3) None =
     (twoRangesStore\<lparr>positionObjects := [0, 2, 3, 5, 3, 5, 5]\<rparr>, Inr twoRangesObject) \<and>
   setFocus linear twoRanges (APosition 5) None = Inr twoRanges"
proof -
  have sv: "selectionValue twoRangesStore twoRangesObject = twoRanges"
    by (simp add: selectionValue_def twoRangesStore_def twoRangesObject_def twoRanges_def
        rangeValue_def)
  have ipv: "itemOrPositionValue twoRangesStore (APosition 3) = (APosition 5 :: (nat, nat) itemOrPosition)"
    by (simp add: itemOrPositionValue_def twoRangesStore_def)
  have h: "\<forall>r \<in> set (arrayObjects twoRangesStore ! ranges' twoRangesObject).
             r < length (rangeObjects twoRangesStore) \<and>
             start (rangeObjects twoRangesStore ! r) < length (positionObjects twoRangesStore) \<and>
             end' (rangeObjects twoRangesStore ! r) < length (positionObjects twoRangesStore)"
    "\<forall>a. (APosition 3 :: (address, nat) itemOrPosition) = APosition a
         \<longrightarrow> a < length (positionObjects twoRangesStore)"
    "ranges (selectionValue twoRangesStore twoRangesObject) \<noteq> []"
    "focus (selectionValue twoRangesStore twoRangesObject) = Some 5"
    "compareWith linear
       (createAt linear (itemOrPositionValue twoRangesStore (APosition 3 :: (address, nat) itemOrPosition)) None) 5
     = ''same''"
    unfolding sv ipv
    by (simp_all add: twoRangesStore_def twoRangesObject_def twoRanges_def focus_def
        createFromPosition_def linear_def)
  have run: "setFocusInStore linear twoRangesStore twoRangesObject (APosition 3) None =
     (twoRangesStore\<lparr>positionObjects := [0, 2, 3, 5, 3, 5, 5]\<rparr>, Inr twoRangesObject)"
    by (simp add: setFocusInStore_def anchorInStore_def focusInStore_def createAtInStore_def
        copyPosition_def newPosition_def itemOrPositionValue_def twoRangesStore_def
        twoRangesObject_def linear_def Let_def)
  have same: "compareWith linear (createAt linear (APosition 5) None) 5 = ''same''"
    by (simp add: linear_def)
  from setFocus_same_is_noop [OF h, of twoRanges 5 "APosition 5" None] sv ipv run h(4) same
  show ?thesis by simp
qed

text \<open>
  Claim C6. Let a selection with anchor \<open>A\<close> and focus \<open>F\<close> be given, and a new focus
  \<open>T\<close> that \<open>compareWith\<close> does not find \<open>'same'\<close> as \<open>F\<close>. The range added is
  \<open>T..A\<close>, backward, when \<open>T\<close> compares \<open>'before'\<close> \<open>A\<close>, and \<open>A..T\<close>, forward,
  otherwise. If it intersects none of the ranges stored before the last one,
  \<open>_setFocus\<close> returns with the last range replaced by it, the earlier ranges in
  place, the direction flag set accordingly, and one \<open>change\<close> fired. Whenever
  \<open>_setFocus\<close> returns, that is the state, with anchor \<open>A\<close> and focus \<open>T\<close>. Whenever it
  throws, it is with \<open>view-selection-range-intersects\<close> against an earlier range, the
  last range removed and nothing fired. In particular, for a selection of one range
  and \<open>T\<close> before \<open>A\<close> and different from it, \<open>_setFocus\<close> returns the selection
  whose only range is \<open>T..A\<close>, and \<open>isBackward\<close> is true of it.
\<close>

theorem setFocus_moves_last_range:
  assumes "ranges s \<noteq> []"
    and "anchor s = Some A"
    and "focus s = Some F"
    and "createAt C itemOrPosition offset = T"
    and "compareWith C T F \<noteq> ''same''"
  shows "((\<forall>x \<in> set (butlast (ranges s)).
             \<not> isIntersecting C
                 (if compareWith C T A = ''before'' then \<lparr>start = T, end' = A\<rparr>
                  else \<lparr>start = A, end' = T\<rparr>) x) \<longrightarrow>
          setFocus C s itemOrPosition offset =
            Inr (s\<lparr>ranges := butlast (ranges s) @
                      [if compareWith C T A = ''before'' then \<lparr>start = T, end' = A\<rparr>
                       else \<lparr>start = A, end' = T\<rparr>],
                    lastRangeBackward := (compareWith C T A = ''before''),
                    fired := fired s @ [''change'']\<rparr>)) \<and>
         (\<forall>s'. setFocus C s itemOrPosition offset = Inr s' \<longrightarrow>
            ranges s' = butlast (ranges s) @
                      [if compareWith C T A = ''before'' then \<lparr>start = T, end' = A\<rparr>
                       else \<lparr>start = A, end' = T\<rparr>] \<and>
            lastRangeBackward s' = (compareWith C T A = ''before'') \<and>
            anchor s' = Some A \<and> focus s' = Some T \<and>
            fired s' = fired s @ [''change'']) \<and>
         (\<forall>e s'. setFocus C s itemOrPosition offset = Inl (e, s') \<longrightarrow>
            ranges s' = butlast (ranges s) \<and> fired s' = fired s \<and>
            (\<exists>x \<in> set (butlast (ranges s)).
               e = Range_intersects
                     (if compareWith C T A = ''before'' then \<lparr>start = T, end' = A\<rparr>
                      else \<lparr>start = A, end' = T\<rparr>) x)) \<and>
         (length (ranges s) = 1 \<longrightarrow> compareWith C T A = ''before'' \<longrightarrow> T \<noteq> A \<longrightarrow>
            (\<exists>s'. setFocus C s itemOrPosition offset = Inr s' \<and>
                  ranges s' = [\<lparr>start = T, end' = A\<rparr>] \<and> isBackward s' \<and>
                  fired s' = fired s @ [''change'']))"
proof -
  let ?new = "if compareWith C T A = ''before'' then \<lparr>start = T, end' = A\<rparr>
              else \<lparr>start = A, end' = T\<rparr>"
  from assms(1,2) have A: "A = (if lastRangeBackward s then end' (last (ranges s))
                                else start (last (ranges s)))"
    by (simp add: anchor_value)
  from assms(1,3) have F: "F = (if lastRangeBackward s then start (last (ranges s))
                                else end' (last (ranges s)))"
    by (simp add: focus_value)
  have unfolded: "setFocus C s itemOrPosition offset =
      (case find (isIntersecting C ?new) (butlast (ranges s)) of
         Some x \<Rightarrow> Inl (Range_intersects ?new x, s\<lparr>ranges := butlast (ranges s)\<rparr>)
       | None \<Rightarrow> Inr (s\<lparr>ranges := butlast (ranges s) @ [?new],
                        lastRangeBackward := (compareWith C T A = ''before''),
                        fired := fired s @ [''change'']\<rparr>))"
    unfolding setFocus_nonempty [OF assms(1)] Let_def A [symmetric] F [symmetric] assms(4)
    using assms(5) by simp
  have one: "(\<forall>x \<in> set (butlast (ranges s)). \<not> isIntersecting C ?new x) \<longrightarrow>
          setFocus C s itemOrPosition offset =
            Inr (s\<lparr>ranges := butlast (ranges s) @ [?new],
                    lastRangeBackward := (compareWith C T A = ''before''),
                    fired := fired s @ [''change'']\<rparr>)"
    unfolding unfolded by (auto simp: find_None_iff split: option.splits dest: find_Some_mem)
  have two: "\<forall>s'. setFocus C s itemOrPosition offset = Inr s' \<longrightarrow>
            ranges s' = butlast (ranges s) @ [?new] \<and>
            lastRangeBackward s' = (compareWith C T A = ''before'') \<and>
            anchor s' = Some A \<and> focus s' = Some T \<and>
            fired s' = fired s @ [''change'']"
    unfolding unfolded by (auto simp: anchor_value focus_value split: option.splits)
  have three: "\<forall>e s'. setFocus C s itemOrPosition offset = Inl (e, s') \<longrightarrow>
            ranges s' = butlast (ranges s) \<and> fired s' = fired s \<and>
            (\<exists>x \<in> set (butlast (ranges s)). e = Range_intersects ?new x)"
    unfolding unfolded by (auto split: option.splits dest: find_Some_mem)
  have four: "length (ranges s) = 1 \<longrightarrow> compareWith C T A = ''before'' \<longrightarrow> T \<noteq> A \<longrightarrow>
            (\<exists>s'. setFocus C s itemOrPosition offset = Inr s' \<and>
                  ranges s' = [\<lparr>start = T, end' = A\<rparr>] \<and> isBackward s' \<and>
                  fired s' = fired s @ [''change''])"
  proof (intro impI)
    assume len: "length (ranges s) = 1" and before: "compareWith C T A = ''before''"
      and ne: "T \<noteq> A"
    from len have "butlast (ranges s) = []" by (cases "ranges s") auto
    with before ne show "\<exists>s'. setFocus C s itemOrPosition offset = Inr s' \<and>
                  ranges s' = [\<lparr>start = T, end' = A\<rparr>] \<and> isBackward s' \<and>
                  fired s' = fired s @ [''change'']"
      unfolding unfolded
      by (simp add: isBackward_def isCollapsed_def rangeCount_def Range_isCollapsed_def)
  qed
  from one two three four show ?thesis by blast
qed

text \<open>
  The selection of the one range \<open>2..4\<close>, anchored at \<open>2\<close>, with its focus moved to
  \<open>0\<close>: the only range is then \<open>0..2\<close>, backward, and a second \<open>change\<close> is fired.
\<close>

theorem setFocus_moves_last_range_witness:
  "anchor oneRange = Some 2 \<and> focus oneRange = Some 4 \<and>
   compareWith linear 0 4 \<noteq> ''same'' \<and> compareWith linear 0 2 = ''before'' \<and>
   setFocus linear oneRange (APosition 0) None =
     Inr \<lparr>ranges = [\<lparr>start = 0, end' = 2\<rparr>], lastRangeBackward = True, isFake = False,
          fakeSelectionLabel = [], fired = [''change'', ''change'']\<rparr> \<and>
   isBackward \<lparr>ranges = [\<lparr>start = 0 :: nat, end' = 2\<rparr>], lastRangeBackward = True,
          isFake = False, fakeSelectionLabel = [], fired = [''change'', ''change'']\<rparr>"
proof -
  have h: "ranges oneRange \<noteq> []" "anchor oneRange = Some 2" "focus oneRange = Some 4"
    "createAt linear (APosition 0) None = 0" "compareWith linear 0 4 \<noteq> ''same''"
    by (simp_all add: oneRange_def anchor_def focus_def createFromPosition_def linear_def)
  have b: "compareWith linear 0 2 = ''before''" by (simp add: linear_def)
  from setFocus_moves_last_range [OF h] b
  have "setFocus linear oneRange (APosition 0) None =
     Inr \<lparr>ranges = [\<lparr>start = 0, end' = 2\<rparr>], lastRangeBackward = True, isFake = False,
          fakeSelectionLabel = [], fired = [''change'', ''change'']\<rparr>"
    by (simp add: oneRange_def)
  with h b show ?thesis
    by (simp add: isBackward_def isCollapsed_def rangeCount_def Range_isCollapsed_def)
qed

text \<open>
  Claim C7. For a reachable selection \<open>s\<close>, the constructor given \<open>s\<close>, and \<open>_setTo\<close>
  given \<open>s\<close> on any other selection, return; the result has the ranges of \<open>s\<close> (in
  the same order, hence the same multiset), its direction \<open>isBackward\<close>, its anchor and
  focus, its fake flag and its fake label, and \<open>isEqual\<close> holds between the two, in
  both orders.
\<close>

theorem selection_from_selection_isEqual:
  assumes "reachable C s"
  shows "(\<exists>s'. Selection_new C (ASelection s) a opts = Inr s' \<and>
               ranges s' = ranges s \<and> mset (ranges s') = mset (ranges s) \<and>
               isBackward s' = isBackward s \<and> anchor s' = anchor s \<and> focus s' = focus s \<and>
               isFake s' = isFake s \<and> fakeSelectionLabel s' = fakeSelectionLabel s \<and>
               isEqual s' s \<and> isEqual s s') \<and>
         (\<exists>t'. setTo C t (ASelection s) a opts = Inr t' \<and>
               ranges t' = ranges s \<and> mset (ranges t') = mset (ranges s) \<and>
               isBackward t' = isBackward s \<and> anchor t' = anchor s \<and> focus t' = focus s \<and>
               isFake t' = isFake s \<and> fakeSelectionLabel t' = fakeSelectionLabel s \<and>
               isEqual t' s \<and> isEqual s t')"
proof -
  from reachable_invariant [OF assms]
  have inv: "laterAvoidsEarlier C (ranges s)" "\<not> isFake s \<longrightarrow> fakeSelectionLabel s = []"
    by simp_all
  have copy: "\<exists>t'. setTo C u (ASelection s) a opts = Inr t' \<and>
               ranges t' = ranges s \<and> mset (ranges t') = mset (ranges s) \<and>
               isBackward t' = isBackward s \<and> anchor t' = anchor s \<and> focus t' = focus s \<and>
               isFake t' = isFake s \<and> fakeSelectionLabel t' = fakeSelectionLabel s \<and>
               isEqual t' s \<and> isEqual s t'" for u
  proof -
    let ?t = "u\<lparr>ranges := ranges s, lastRangeBackward := isBackward s, isFake := isFake s,
                 fakeSelectionLabel := fakeSelectionLabel s, fired := fired u @ [''change'']\<rparr>"
    have "isBackward ?t = isBackward s \<and> anchor ?t = anchor s \<and> focus ?t = focus s \<and>
         isEqual ?t s \<and> isEqual s ?t"
      by (rule isEqual_copy) simp_all
    with setTo_ASelection [OF inv, of u a opts] show ?thesis by simp
  qed
  from copy [of initial] copy [of t] show ?thesis by (simp add: Selection_new_def)
qed

text \<open>
  The fake, backward selection \<open>fakeBackward\<close> is copied by the constructor and by
  \<open>_setTo\<close> on \<open>twoRanges\<close>.
\<close>

theorem selection_from_selection_isEqual_witness:
  "reachable linear fakeBackward \<and>
   Selection_new linear (ASelection fakeBackward) Undefined None = Inr fakeBackward \<and>
   isEqual fakeBackward fakeBackward \<and>
   (\<exists>t'. setTo linear twoRanges (ASelection fakeBackward) Undefined None = Inr t' \<and>
         isEqual t' fakeBackward)"
proof -
  have r: "reachable linear fakeBackward"
    by (rule constructed [OF fakeBackward_constructed])
  have run: "Selection_new linear (ASelection fakeBackward) Undefined None = Inr fakeBackward"
    by (simp add: run_defs fakeBackward_def getRanges_def isBackward_def isCollapsed_def
        rangeCount_def Range_isCollapsed_def)
  from selection_from_selection_isEqual [OF r, of Undefined None twoRanges] r run
  show ?thesis by auto
qed

text \<open>
  Claim C8. In every reachable state the fake label is empty when the selection is not
  fake. \<open>_setFakeOptions\<close> given an options object sets the fake flag to the boolean
  coercion of \<open>options.fake\<close>, and the label to \<open>options.label\<close> (to the empty string
  when there is none) if \<open>options.fake\<close> is truthy and to the empty string if it is
  not, whatever label was given; with no options object the selection is not fake and
  its label is empty. It changes neither the ranges, nor the direction flag, nor the
  log of events.
\<close>

theorem fake_label_empty_unless_fake:
  "(reachable C s \<longrightarrow> \<not> isFake s \<longrightarrow> fakeSelectionLabel s = []) \<and>
   isFake (setFakeOptions t (Some opts)) = truthy (fake opts) \<and>
   fakeSelectionLabel (setFakeOptions t (Some opts)) =
     (if truthy (fake opts) then (case label opts of None \<Rightarrow> [] | Some l \<Rightarrow> l) else []) \<and>
   isFake (setFakeOptions t None) = False \<and>
   fakeSelectionLabel (setFakeOptions t None) = [] \<and>
   ranges (setFakeOptions t given) = ranges t \<and>
   lastRangeBackward (setFakeOptions t given) = lastRangeBackward t \<and>
   fired (setFakeOptions t given) = fired t"
proof -
  have "reachable C s \<longrightarrow> \<not> isFake s \<longrightarrow> fakeSelectionLabel s = []"
    using reachable_invariant [of C s] by blast
  moreover have "labelOrEmpty (label opts) = (case label opts of None \<Rightarrow> [] | Some l \<Rightarrow> l)"
    by (cases "label opts") simp_all
  ultimately show ?thesis by (simp add: setFakeOptions_def Let_def)
qed

text \<open>
  \<open>plainBackward\<close> was constructed with the label \<open>dropped\<close> and no \<open>fake\<close>: its label
  is empty. A label given with \<open>fake: false\<close> is dropped, one given with \<open>fake: true\<close>
  is kept.
\<close>

theorem fake_label_empty_unless_fake_witness:
  "reachable linear plainBackward \<and> \<not> isFake plainBackward \<and>
   fakeSelectionLabel plainBackward = [] \<and>
   fakeSelectionLabel
     (setFakeOptions fakeBackward
        (Some \<lparr>backward = None, fake = Some False, label = Some ''dropped''\<rparr>)) = [] \<and>
   fakeSelectionLabel
     (setFakeOptions plainBackward
        (Some \<lparr>backward = None, fake = Some True, label = Some ''kept''\<rparr>)) = ''kept''"
proof -
  have r: "reachable linear plainBackward"
    by (rule constructed [OF plainBackward_constructed])
  have nf: "\<not> isFake plainBackward" by (simp add: plainBackward_def)
  from fake_label_empty_unless_fake [of linear plainBackward fakeBackward
      "\<lparr>backward = None, fake = Some False, label = Some ''dropped''\<rparr>"]
    fake_label_empty_unless_fake [of linear plainBackward plainBackward
      "\<lparr>backward = None, fake = Some True, label = Some ''kept''\<rparr>"] r nf
  show ?thesis by simp
qed

text \<open>
  Claim C9. Let the first \<open>k\<close> of the new ranges be ranges none of which intersects
  one before it, and let the next one be no range, or a range that intersects one of
  them. Then \<open>_setRanges\<close> throws (\<open>view-selection-invalid-range\<close> in the first case,
  \<open>view-selection-range-intersects\<close> with one of those \<open>k\<close> ranges in the second) and
  leaves the selection with exactly those \<open>k\<close> ranges: the ranges stored before the
  call are gone, whatever they were, and the direction flag is that of the last
  forward addition (the old flag when \<open>k = 0\<close>).
\<close>

theorem setRanges_keeps_the_ranges_added_before_the_throw:
  assumes "k < length newRanges"
    and "take k newRanges = map ARange rs"
    and "\<forall>i j. i < j \<longrightarrow> j < length rs \<longrightarrow> \<not> isIntersecting C (rs ! j) (rs ! i)"
    and "newRanges ! k = NotARange \<or>
         (\<exists>r. newRanges ! k = ARange r \<and> (\<exists>x \<in> set rs. isIntersecting C r x))"
  shows "\<exists>e. setRanges C s newRanges b =
               Inl (e, s\<lparr>ranges := rs,
                          lastRangeBackward := (if rs = [] then lastRangeBackward s else False)\<rparr>) \<and>
             (newRanges ! k = NotARange \<longrightarrow> e = Invalid_range) \<and>
             (\<forall>r. newRanges ! k = ARange r \<longrightarrow>
                (\<exists>x \<in> set rs. isIntersecting C r x \<and> e = Range_intersects r x))"
proof -
  let ?t = "s\<lparr>ranges := rs, lastRangeBackward := (if rs = [] then lastRangeBackward s else False)\<rparr>"
  from assms(3) have sorted: "laterAvoidsEarlier C rs"
    by (simp add: sorted_wrt_iff_nth_less)
  have "\<exists>e. addRange C ?t (newRanges ! k) False = Inl (e, ?t) \<and>
             (newRanges ! k = NotARange \<longrightarrow> e = Invalid_range) \<and>
             (\<forall>r. newRanges ! k = ARange r \<longrightarrow>
                (\<exists>x \<in> set rs. isIntersecting C r x \<and> e = Range_intersects r x))"
  proof (cases "newRanges ! k")
    case NotARange
    then show ?thesis by (simp add: addRange_eq_Inl)
  next
    case (ARange r)
    with assms(4) have "\<exists>x \<in> set rs. isIntersecting C r x" by simp
    then have "find (isIntersecting C r) rs \<noteq> None" by (auto simp: find_None_iff)
    then obtain x where x: "find (isIntersecting C r) rs = Some x" by blast
    with find_Some_mem [OF x] ARange show ?thesis
      by (intro exI [of _ "Range_intersects r x"]) (auto simp: addRange_eq_Inl)
  qed
  then obtain e where e: "addRange C ?t (newRanges ! k) False = Inl (e, ?t)"
    "newRanges ! k = NotARange \<longrightarrow> e = Invalid_range"
    "\<forall>r. newRanges ! k = ARange r \<longrightarrow>
                (\<exists>x \<in> set rs. isIntersecting C r x \<and> e = Range_intersects r x)"
    by (elim exE conjE)
  have "setRanges C s newRanges b = Inl (e, ?t)"
    unfolding setRanges_eq_Inl using assms(1,2) sorted e(1)
    by (intro exI [of _ k] conjI exI [of _ rs]) simp_all
  with e(2,3) show ?thesis by blast
qed

text \<open>
  \<open>twoRanges\<close> set to \<open>6..8\<close>, \<open>7..9\<close>, \<open>0..1\<close>: the second intersects the first, and
  the selection is left with \<open>6..8\<close> alone, its two former ranges lost.
\<close>

theorem setRanges_keeps_the_ranges_added_before_the_throw_witness:
  "setRanges linear twoRanges
     [ARange \<lparr>start = 6, end' = 8\<rparr>, ARange \<lparr>start = 7, end' = 9\<rparr>, ARange \<lparr>start = 0, end' = 1\<rparr>]
     True =
   Inl (Range_intersects \<lparr>start = 7, end' = 9\<rparr> \<lparr>start = 6, end' = 8\<rparr>,
        twoRanges\<lparr>ranges := [\<lparr>start = 6, end' = 8\<rparr>], lastRangeBackward := False\<rparr>)"
proof -
  let ?new = "[ARange \<lparr>start = 6, end' = 8\<rparr>, ARange \<lparr>start = 7, end' = 9\<rparr>,
               ARange \<lparr>start = 0, end' = 1\<rparr>] :: nat rangeOrOther list"
  let ?rs = "[\<lparr>start = 6, end' = 8\<rparr>] :: nat Range list"
  have h: "1 < length ?new" "take 1 ?new = map ARange ?rs"
    "\<forall>i j. i < j \<longrightarrow> j < length ?rs \<longrightarrow> \<not> isIntersecting linear (?rs ! j) (?rs ! i)"
    "?new ! 1 = NotARange \<or>
       (\<exists>r. ?new ! 1 = ARange r \<and> (\<exists>x \<in> set ?rs. isIntersecting linear r x))"
    by (simp_all add: linear_def)
  from setRanges_keeps_the_ranges_added_before_the_throw [OF h, of twoRanges True]
  show ?thesis by auto
qed

text \<open>
  Claim C10. \<open>isSimilar\<close> does not read the fake flag or the fake label: changing them
  in either selection does not change its result. So two selections with the same
  direction \<open>isBackward\<close> whose trimmed ranges match, as multisets, are similar whatever
  their fake metadata; and it is enough that they have the same number of ranges and
  that every trimmed range of the first has the start and the end of some trimmed
  range of the second. In particular two selections without ranges and with the same
  direction are similar whatever their fake metadata, while \<open>isEqual\<close> holds of them
  only if their fake flags agree and, when they are fake, their labels.
\<close>

theorem isSimilar_ignores_fake:
  "isSimilar C (a\<lparr>isFake := fa, fakeSelectionLabel := la\<rparr>)
               (b\<lparr>isFake := fb, fakeSelectionLabel := lb\<rparr>) = isSimilar C a b \<and>
   (isBackward a = isBackward b \<longrightarrow>
      mset (map (getTrimmed C) (ranges a)) = mset (map (getTrimmed C) (ranges b)) \<longrightarrow>
      isSimilar C a b) \<and>
   (isBackward a = isBackward b \<longrightarrow> length (ranges a) = length (ranges b) \<longrightarrow>
      (\<forall>ra \<in> set (ranges a). \<exists>rb \<in> set (ranges b).
          start (getTrimmed C ra) = start (getTrimmed C rb) \<and>
          end' (getTrimmed C ra) = end' (getTrimmed C rb)) \<longrightarrow>
      isSimilar C a b) \<and>
   (ranges a = [] \<longrightarrow> ranges b = [] \<longrightarrow> isBackward a = isBackward b \<longrightarrow>
      isSimilar C a b \<and>
      isEqual a b = (isFake a = isFake b \<and>
                     (isFake a \<longrightarrow> fakeSelectionLabel a = fakeSelectionLabel b)))"
proof -
  have bw: "isBackward (a\<lparr>isFake := f, fakeSelectionLabel := l\<rparr>) = isBackward a"
    for a :: "'a Selection" and f l
    by (simp add: isBackward_def isCollapsed_def rangeCount_def)
  have one: "isSimilar C (a\<lparr>isFake := fa, fakeSelectionLabel := la\<rparr>)
               (b\<lparr>isFake := fb, fakeSelectionLabel := lb\<rparr>) = isSimilar C a b"
    by (simp add: isSimilar_def bw)
  have three: "isBackward a = isBackward b \<longrightarrow> length (ranges a) = length (ranges b) \<longrightarrow>
      (\<forall>ra \<in> set (ranges a). \<exists>rb \<in> set (ranges b).
          start (getTrimmed C ra) = start (getTrimmed C rb) \<and>
          end' (getTrimmed C ra) = end' (getTrimmed C rb)) \<longrightarrow>
      isSimilar C a b"
    by (simp add: isSimilar_def Let_def list_all_iff list_ex_iff)
  have two: "isSimilar C a b"
    if dir: "isBackward a = isBackward b"
      and m: "mset (map (getTrimmed C) (ranges a)) = mset (map (getTrimmed C) (ranges b))"
  proof -
    from m have "size (mset (map (getTrimmed C) (ranges a)))
               = size (mset (map (getTrimmed C) (ranges b)))" by simp
    then have len: "length (ranges a) = length (ranges b)" by simp
    from m have sets: "set (map (getTrimmed C) (ranges a)) = set (map (getTrimmed C) (ranges b))"
      by (rule mset_eq_setD)
    have "\<exists>rb \<in> set (ranges b).
          start (getTrimmed C ra) = start (getTrimmed C rb) \<and>
          end' (getTrimmed C ra) = end' (getTrimmed C rb)" if "ra \<in> set (ranges a)" for ra
    proof -
      from that have "getTrimmed C ra \<in> set (map (getTrimmed C) (ranges a))" by simp
      with sets have "getTrimmed C ra \<in> set (map (getTrimmed C) (ranges b))" by simp
      then obtain rb where "rb \<in> set (ranges b)" "getTrimmed C ra = getTrimmed C rb" by auto
      then show ?thesis by auto
    qed
    with three dir len show ?thesis by blast
  qed
  have four: "ranges a = [] \<longrightarrow> ranges b = [] \<longrightarrow> isBackward a = isBackward b \<longrightarrow>
      isSimilar C a b \<and>
      isEqual a b = (isFake a = isFake b \<and>
                     (isFake a \<longrightarrow> fakeSelectionLabel a = fakeSelectionLabel b))"
    by (auto simp: isSimilar_def isEqual_def rangeCount_def)
  from one two three four show ?thesis by blast
qed

text \<open>
  A fake and a plain selection of the same backward range are similar and not equal;
  so are the selection without ranges and its fake variant.
\<close>

theorem isSimilar_ignores_fake_witness:
  "isBackward fakeBackward = isBackward plainBackward \<and>
   mset (map (getTrimmed linear) (ranges fakeBackward)) =
     mset (map (getTrimmed linear) (ranges plainBackward)) \<and>
   isFake fakeBackward \<noteq> isFake plainBackward \<and>
   isSimilar linear fakeBackward plainBackward \<and> \<not> isEqual fakeBackward plainBackward \<and>
   ranges emptyForward = [] \<and>
   isBackward emptyForward
     = isBackward (emptyForward\<lparr>isFake := True, fakeSelectionLabel := ''widget''\<rparr>) \<and>
   isSimilar linear emptyForward (emptyForward\<lparr>isFake := True, fakeSelectionLabel := ''widget''\<rparr>) \<and>
   \<not> isEqual emptyForward (emptyForward\<lparr>isFake := True, fakeSelectionLabel := ''widget''\<rparr>)"
proof -
  let ?fakeEmpty = "emptyForward\<lparr>isFake := True, fakeSelectionLabel := ''widget''\<rparr>"
  have h: "isBackward fakeBackward = isBackward plainBackward"
    "mset (map (getTrimmed linear) (ranges fakeBackward)) =
     mset (map (getTrimmed linear) (ranges plainBackward))"
    by (simp_all add: fakeBackward_def plainBackward_def isBackward_def isCollapsed_def
        rangeCount_def)
  from isSimilar_ignores_fake [where C = linear and a = fakeBackward and b = plainBackward] h
  have "isSimilar linear fakeBackward plainBackward" by blast
  moreover have "\<not> isEqual fakeBackward plainBackward" "isFake fakeBackward \<noteq> isFake plainBackward"
    by (simp_all add: isEqual_def fakeBackward_def plainBackward_def)
  moreover have e: "ranges emptyForward = []" "ranges ?fakeEmpty = []"
    "isBackward emptyForward = isBackward ?fakeEmpty"
    by (simp_all add: emptyForward_def isBackward_def isCollapsed_def rangeCount_def)
  moreover from isSimilar_ignores_fake [where C = linear and a = emptyForward and b = ?fakeEmpty] e
  have "isSimilar linear emptyForward ?fakeEmpty \<and> \<not> isEqual emptyForward ?fakeEmpty"
    by (simp add: emptyForward_def)
  ultimately show ?thesis using h by simp
qed

end
